theory Spec2Isabelle
  imports Main "HOL-Library.Word" "HOL-Library.AList" "HOL-Library.Char_ord" "HOL-Library.List_Lexorder"
begin

unbundle bit_operations_syntax

section \<open>Python values shared by the embedding\<close>

text \<open>
  The exceptions the modelled code can raise.  Every \<^verbatim>\<open>raise\<close>, failed
  \<^verbatim>\<open>assert\<close>, failed index and failed attribute access of the source is a value
  of this type.
\<close>

datatype py_error =
    ValueError
  | IndexError
  | KeyError
  | TypeError
  | AttributeError
  | AssertionError
  | ParseError

text \<open>
  A \<^verbatim>\<open>bytes\<close> object is a list of octets.  An address (\<^verbatim>\<open>hashid\<close>, uuid) is a
  \<^verbatim>\<open>bytes\<close> object; Python treats the empty one as false.
\<close>

type_synonym bytes = "8 word list"

definition truthy_bytes :: "bytes \<Rightarrow> bool" where
  "truthy_bytes b = (b \<noteq> [])"

section \<open>tools.py: the identity tag\<close>

text \<open>\<^verbatim>\<open>_uuid_tags = ["transient", "canonical"]\<close>\<close>

definition uuid_tags :: "string list" where
  "uuid_tags = [''transient'', ''canonical'']"

text \<open>\<^verbatim>\<open>list.index\<close>: the first position of a value, \<^verbatim>\<open>ValueError\<close> when absent.\<close>

fun list_index :: "'a list \<Rightarrow> 'a \<Rightarrow> py_error + nat" where
  "list_index [] y = Inl ValueError"
| "list_index (x # xs) y =
     (if x = y then Inr 0
      else (case list_index xs y of Inl e \<Rightarrow> Inl e | Inr i \<Rightarrow> Inr (Suc i)))"

text \<open>\<^verbatim>\<open>xs[i]\<close> for a non-negative index: \<^verbatim>\<open>IndexError\<close> out of range.\<close>

definition list_get :: "'a list \<Rightarrow> nat \<Rightarrow> py_error + 'a" where
  "list_get xs i = (if i < length xs then Inr (xs ! i) else Inl IndexError)"

text \<open>
  \<^verbatim>\<open>
  def tag_uuid(uuid, status):
      bit = _uuid_tags.index(status)
      nums = list(uuid)
      if bit:
          nums[0] = nums[0] | 128
      else:
          nums[0] = nums[0] & 127
      return bytes(nums)
  \<close>
\<close>

definition tag_uuid :: "bytes \<Rightarrow> string \<Rightarrow> py_error + bytes" where
  "tag_uuid uuid status =
     (case list_index uuid_tags status of
        Inl e \<Rightarrow> Inl e
      | Inr bit_index \<Rightarrow>
          (case uuid of
             [] \<Rightarrow> Inl IndexError
           | n # nums \<Rightarrow>
               if bit_index \<noteq> 0 then Inr ((n OR 128) # nums)
               else Inr ((n AND 127) # nums)))"

text \<open>
  \<^verbatim>\<open>
  def get_uuid_tag(uuid):
      return _uuid_tags[(uuid[0] & 128) >> 7]
  \<close>
\<close>

definition get_uuid_tag :: "bytes \<Rightarrow> py_error + string" where
  "get_uuid_tag uuid =
     (case uuid of
        [] \<Rightarrow> Inl IndexError
      | n # nums \<Rightarrow> list_get uuid_tags (unat (drop_bit 7 (n AND 128))))"

section \<open>tools.py: EquivalenceGroups\<close>

text \<open>
  A Python \<^verbatim>\<open>dict\<close> keeps its keys in insertion order; assigning to a key that is present
  keeps its position.  It is an association list with \<open>map_of\<close> for lookup and
  \<open>AList.update\<close> for assignment.

  \<^verbatim>\<open>
  class EquivalenceGroups:
      def __init__(self):
          self.representatives = {}
          self.names = {}
          self.classes = {}
  \<close>
  \<^verbatim>\<open>names\<close> holds the \<^verbatim>\<open>under\<close> argument of \<^verbatim>\<open>equiv_all\<close> (a label or \<^verbatim>\<open>None\<close>),
  \<^verbatim>\<open>classes\<close> its \<^verbatim>\<open>cls\<close> argument (a class, here its name, or \<^verbatim>\<open>None\<close>).
\<close>

record equivalence_groups =
  representatives :: "(bytes \<times> bytes) list"
  names :: "(bytes \<times> string option) list"
  classes :: "(bytes \<times> string option) list"

definition init_groups :: equivalence_groups where
  "init_groups = \<lparr>representatives = [], names = [], classes = []\<rparr>"

text \<open>
  \<^verbatim>\<open>
  def follow(self, a):
      if b := self.representatives.get(a, None):
          if a == b:
              return a
          self.representatives[a] = res = self.follow(b)
          return res
      else:
          return a
  \<close>
  The recursion follows the representatives and need not end (Python then raises
  \<^verbatim>\<open>RecursionError\<close>); \<open>None\<close> is that outcome.  The function returns the updated
  dictionary with the result.  The test \<^verbatim>\<open>if b := ...\<close> is Python truthiness: an
  absent key and an empty \<^verbatim>\<open>bytes\<close> value both take the \<^verbatim>\<open>else\<close> branch.
\<close>

partial_function (option) follow ::
  "(bytes \<times> bytes) list \<Rightarrow> bytes \<Rightarrow> ((bytes \<times> bytes) list \<times> bytes) option"
where
  "follow reps a =
     (case map_of reps a of
        None \<Rightarrow> Some (reps, a)
      | Some b \<Rightarrow>
          if truthy_bytes b then
            if a = b then Some (reps, a)
            else Option.bind (follow reps b)
                   (\<lambda>(reps', res). Some (AList.update a res reps', res))
          else Some (reps, a))"

declare follow.simps [code]

text \<open>
  \<^verbatim>\<open>
  def equiv(self, a, b):
      ar = self.follow(a)
      br = self.follow(b)
      self.representatives[a] = ar
      self.representatives[b] = ar
      self.representatives[br] = ar
  \<close>
\<close>

definition equiv :: "equivalence_groups \<Rightarrow> bytes \<Rightarrow> bytes \<Rightarrow> equivalence_groups option" where
  "equiv g a b =
     Option.bind (follow (representatives g) a) (\<lambda>(reps1, ar).
     Option.bind (follow reps1 b) (\<lambda>(reps2, br).
       Some (g\<lparr>representatives :=
                 AList.update br ar (AList.update b ar (AList.update a ar reps2))\<rparr>)))"

text \<open>A sequence of \<^verbatim>\<open>equiv\<close> calls, in order.\<close>

fun equiv_seq :: "equivalence_groups \<Rightarrow> (bytes \<times> bytes) list \<Rightarrow> equivalence_groups option" where
  "equiv_seq g [] = Some g"
| "equiv_seq g ((a, b) # ps) = Option.bind (equiv g a b) (\<lambda>g'. equiv_seq g' ps)"

text \<open>
  \<^verbatim>\<open>
  def equiv_all(self, ids, cls=None, under=None):
      if not ids:
          return
      a, *rest = list(ids)
      for b in rest:
          self.equiv(a, b)
      for x in ids:
          self.names[x] = under
          self.classes[x] = cls
  \<close>
\<close>

fun set_labels ::
  "equivalence_groups \<Rightarrow> bytes list \<Rightarrow> string option \<Rightarrow> string option \<Rightarrow> equivalence_groups"
where
  "set_labels g [] cls under_label = g"
| "set_labels g (x # xs) cls under_label =
     set_labels (g\<lparr>names := AList.update x under_label (names g),
                   classes := AList.update x cls (classes g)\<rparr>) xs cls under_label"

definition equiv_all ::
  "equivalence_groups \<Rightarrow> bytes list \<Rightarrow> string option \<Rightarrow> string option
     \<Rightarrow> equivalence_groups option"
where
  "equiv_all g ids cls under_label =
     (case ids of
        [] \<Rightarrow> Some g
      | a # rest \<Rightarrow>
          Option.bind (equiv_seq g (map (\<lambda>b. (a, b)) rest))
            (\<lambda>g'. Some (set_labels g' ids cls under_label)))"

text \<open>
  \<^verbatim>\<open>
  def groups(self):
      for k in self.representatives:
          self.follow(k)
      results = defaultdict(set)
      for k, v in self.representatives.items():
          results[v].add(k)
      return results
  \<close>
  The first loop runs over the keys while \<^verbatim>\<open>follow\<close> assigns to keys that are present,
  which leaves the key list as it is.
\<close>

fun follow_keys :: "(bytes \<times> bytes) list \<Rightarrow> bytes list \<Rightarrow> (bytes \<times> bytes) list option" where
  "follow_keys reps [] = Some reps"
| "follow_keys reps (k # ks) =
     Option.bind (follow reps k) (\<lambda>(reps', res). follow_keys reps' ks)"

definition add_member :: "(bytes \<times> bytes set) list \<Rightarrow> bytes \<times> bytes \<Rightarrow> (bytes \<times> bytes set) list" where
  "add_member results kv =
     (case kv of (k, v) \<Rightarrow>
        AList.update v (insert k (case map_of results v of None \<Rightarrow> {} | Some ids \<Rightarrow> ids)) results)"

definition bucket :: "(bytes \<times> bytes) list \<Rightarrow> (bytes \<times> bytes set) list" where
  "bucket reps = foldl add_member [] reps"

definition groups ::
  "equivalence_groups \<Rightarrow> (equivalence_groups \<times> (bytes \<times> bytes set) list) option"
where
  "groups g =
     Option.bind (follow_keys (representatives g) (map fst (representatives g)))
       (\<lambda>reps. Some (g\<lparr>representatives := reps\<rparr>, bucket reps))"

text \<open>
  \<^verbatim>\<open>
  def __iter__(self):
      for main, ids in self.groups().items():
          assert len(ids) > 1
          print(f"Merging {len(ids)} IDs for {self.names[main]}")
          yield self.classes[main](ids=ids)
  \<close>
  A merge directive is the object \<^verbatim>\<open>cls(ids=ids)\<close>.  The generator is modelled by the
  list of the directives it yields and the exception that ends it, if one does:
  \<^verbatim>\<open>AssertionError\<close> from the \<^verbatim>\<open>assert\<close>, \<^verbatim>\<open>KeyError\<close> from a missing key of
  \<^verbatim>\<open>names\<close> or \<^verbatim>\<open>classes\<close>, \<^verbatim>\<open>TypeError\<close> from calling \<^verbatim>\<open>None\<close>.
\<close>

datatype directive = Directive (kind: string) (ids: "bytes set")

fun emit ::
  "(bytes \<times> string option) list \<Rightarrow> (bytes \<times> string option) list
     \<Rightarrow> (bytes \<times> bytes set) list \<Rightarrow> directive list \<times> py_error option"
where
  "emit ns cs [] = ([], None)"
| "emit ns cs ((main, members) # rest) =
     (if \<not> card members > 1 then ([], Some AssertionError)
      else case map_of ns main of
        None \<Rightarrow> ([], Some KeyError)
      | Some label \<Rightarrow>
          (case map_of cs main of
             None \<Rightarrow> ([], Some KeyError)
           | Some None \<Rightarrow> ([], Some TypeError)
           | Some (Some cls) \<Rightarrow>
               (case emit ns cs rest of (ds, e) \<Rightarrow> (Directive cls members # ds, e))))"

definition iter_groups ::
  "equivalence_groups \<Rightarrow> (equivalence_groups \<times> directive list \<times> py_error option) option"
where
  "iter_groups g =
     Option.bind (groups g) (\<lambda>(g', results). Some (g', emit (names g') (classes g') results))"

section \<open>Notions used to state and prove the union-find properties\<close>







definition members :: "('k \<times> 'v) list \<Rightarrow> 'v \<Rightarrow> 'k set" where
  "members reps v = {k. (k, v) \<in> set reps}"

section \<open>db/database.py: entities, rows and the state of a Database\<close>

text \<open>
  The entity classes come from \<^verbatim>\<open>sources/model.py\<close>, which is not under \<^verbatim>\<open>src/\<close>.  Each
  datatype below has the fields that \<^verbatim>\<open>Database._acquire\<close> reads from the class of that
  name (its \<^verbatim>\<open>match\<close> patterns and attribute accesses).  \<open>EOther\<close> is an object of any
  other class, by the name of its type.
\<close>

datatype link = Link (link_type: string) (link_link: string)

datatype institution = Institution (institution_name: string) (institution_category: string)

datatype role =
  Role (role_institution: institution) (role_role: string)
    (role_start_date: "string option") (role_end_date: "string option")

datatype topic = Topic (topic_name: string)

datatype venue = Venue (venue_type: string) (venue_name: string) (venue_links: "link list")

datatype release =
  Release (release_venue: venue) (release_date: string) (release_date_precision: int)
    (release_volume: "string option") (release_publisher: "string option")

datatype author =
  Author (author_name: string) (author_affiliations: "institution list")
    (author_links: "link list") (author_aliases: "string list") (author_roles: "role list")

datatype paper =
  Paper (paper_title: string) (paper_abstract: "string option")
    (paper_citation_count: "int option") (paper_authors: "author list")
    (paper_releases: "release list") (paper_topics: "topic list")
    (paper_links: "link list") (paper_scrapers: "string list")

datatype entity =
    EPaper paper
  | EAuthor author
  | EInstitution institution
  | ERelease release
  | ETopic topic
  | EVenue venue
  | EAuthorQuery "bytes option" author
  | EOther string

text \<open>
  The rows that \<^verbatim>\<open>_acquire\<close> builds from \<^verbatim>\<open>db/schema.py\<close> (\<^verbatim>\<open>sch\<close>), one constructor
  per mapped class or table, with the columns the code fills in.
\<close>

datatype row =
    sch_Paper "bytes option" string "string option" "int option"
  | sch_PaperAuthor "bytes option" "bytes option" nat
  | t_paper_author_institution "bytes option" "bytes option" "bytes option"
  | t_paper_release "bytes option" "bytes option"
  | t_paper_topic "bytes option" "bytes option"
  | sch_PaperLink "bytes option" string string
  | sch_PaperScraper "bytes option" string
  | sch_Author "bytes option" string
  | sch_Institution "bytes option" string string
  | sch_Release "bytes option" string int "string option" "string option" "bytes option"
  | sch_Topic "bytes option" string
  | sch_Venue "bytes option" string string
  | sch_VenueLink "bytes option" string string
  | sch_AuthorLink "bytes option" string string
  | sch_AuthorAlias "bytes option" string
  | sch_AuthorInstitution "bytes option" "bytes option" string "string option" "string option"

text \<open>
  The two ways the code writes: \<^verbatim>\<open>session.merge(obj)\<close> (insert or update by primary key)
  and \<^verbatim>\<open>session.execute(insert(table).values(...).on_conflict_do_nothing())\<close>.
\<close>

datatype db_op = Merge row | InsertIgnore row

text \<open>
  What a run does, in order: a session is opened, an operation is issued in it, the session
  is committed, lines are appended to a history file.
\<close>

datatype event = Begin | Issued db_op | Commit | Appended string "string list"

text \<open>
  \<^verbatim>\<open>
  def __init__(self, filename):
      self.engine = create_engine(f"sqlite:///{filename}")
      ...
      self.session = None
      self.cache = {}
  \<close>
  \<open>committed\<close> is the content of the database file, as the operations committed to it in
  order; \<open>session\<close> is \<^verbatim>\<open>self.session\<close>, \<open>None\<close> or the open session with the operations
  issued in it and not yet committed; \<open>cache\<close> is \<^verbatim>\<open>self.cache\<close>, keyed by
  \<^verbatim>\<open>hashid()\<close> (\<^verbatim>\<open>None\<close> included) and holding what \<^verbatim>\<open>_acquire\<close> returned (a row or
  \<^verbatim>\<open>None\<close>); \<open>files\<close> are the history files that \<^verbatim>\<open>import_all\<close> appends to, by path;
  \<open>trace\<close> records the events of the run.
\<close>

record database =
  committed :: "db_op list"
  session :: "db_op list option"
  cache :: "(bytes option \<times> row option) list"
  files :: "(string \<times> string list) list"
  trace :: "event list"

definition init_database :: database where
  "init_database = \<lparr>committed = [], session = None, cache = [], files = [], trace = []\<rparr>"

text \<open>
  The table contents after a list of operations, for a primary-key function \<open>pk\<close> (the
  schema is not under \<^verbatim>\<open>src/\<close>, so the key of a row is a parameter): \<open>Merge\<close> replaces
  the row of that key, \<open>InsertIgnore\<close> inserts when the key is free.
\<close>

definition apply_op :: "(row \<Rightarrow> 'k) \<Rightarrow> ('k \<rightharpoonup> row) \<Rightarrow> db_op \<Rightarrow> ('k \<rightharpoonup> row)" where
  "apply_op pk tbl op =
     (case op of
        Merge r \<Rightarrow> tbl(pk r \<mapsto> r)
      | InsertIgnore r \<Rightarrow> (if tbl (pk r) = None then tbl(pk r \<mapsto> r) else tbl))"

definition rows_of :: "(row \<Rightarrow> 'k) \<Rightarrow> db_op list \<Rightarrow> ('k \<rightharpoonup> row)" where
  "rows_of pk ops = foldl (apply_op pk) Map.empty ops"

text \<open>
  The history files that \<^verbatim>\<open>replay\<close> reads: a \<^verbatim>\<open>Path\<close> is a file with its lines or a
  directory with its entries (in the order \<^verbatim>\<open>iterdir()\<close> yields them); \<open>node_name\<close> is
  \<^verbatim>\<open>Path.name\<close>.
\<close>

datatype fsnode =
    File (node_name: string) (file_lines: "string list")
  | Dir (node_name: string) (dir_children: "fsnode list")

text \<open>
  What the code takes from modules that are not under \<^verbatim>\<open>src/\<close>: the \<^verbatim>\<open>hashid()\<close> and
  \<^verbatim>\<open>tagged_json()\<close> methods of the entities, \<^verbatim>\<open>from_dict(json.loads(line))\<close>, and the
  configured history file and history root.
\<close>

record externals =
  hashid :: "entity \<Rightarrow> bytes option"
  tagged_json :: "entity \<Rightarrow> string"
  from_json :: "string \<Rightarrow> py_error + entity"
  config_history_file :: string
  config_history_root :: fsnode

text \<open>
  A method of \<^verbatim>\<open>Database\<close> takes the state and returns the state it leaves, with its
  value or the exception it raised: the state changes made before a \<^verbatim>\<open>raise\<close> stay.
\<close>

type_synonym 'a action = "database \<Rightarrow> (py_error + 'a) \<times> database"

definition returns :: "'a \<Rightarrow> 'a action" where
  "returns v db = (Inr v, db)"

definition raises :: "py_error \<Rightarrow> 'a action" where
  "raises e db = (Inl e, db)"

definition and_then :: "'a action \<Rightarrow> ('a \<Rightarrow> 'b action) \<Rightarrow> 'b action" where
  "and_then m f db = (case m db of (Inl e, db') \<Rightarrow> (Inl e, db') | (Inr v, db') \<Rightarrow> f v db')"

text \<open>A \<^verbatim>\<open>for\<close> loop over a list: it ends at the first exception.\<close>

fun for_each :: "('a \<Rightarrow> unit action) \<Rightarrow> 'a list \<Rightarrow> unit action" where
  "for_each body [] = returns ()"
| "for_each body (x # xs) = and_then (body x) (\<lambda>_. for_each body xs)"

text \<open>
  \<^verbatim>\<open>self.session.merge(...)\<close> and \<^verbatim>\<open>self.session.execute(...)\<close>: an attribute of
  \<^verbatim>\<open>None\<close> when no session is open.
\<close>

definition session_issue :: "db_op \<Rightarrow> unit action" where
  "session_issue op db =
     (case session db of
        None \<Rightarrow> (Inl AttributeError, db)
      | Some pending \<Rightarrow>
          (Inr (), db\<lparr>session := Some (pending @ [op]), trace := trace db @ [Issued op]\<rparr>))"

text \<open>
  \<^verbatim>\<open>
  def __enter__(self):
      self.session = Session(self.engine).__enter__()
      return self

  def __exit__(self, *args):
      self.session.commit()
      self.session.__exit__(*args)
      self.session = None
  \<close>
\<close>

definition enter :: "unit action" where
  "enter db = (Inr (), db\<lparr>session := Some [], trace := trace db @ [Begin]\<rparr>)"

definition exit :: "unit action" where
  "exit db =
     (case session db of
        None \<Rightarrow> (Inl AttributeError, db)
      | Some pending \<Rightarrow>
          (Inr (), db\<lparr>committed := committed db @ pending, session := None,
                       trace := trace db @ [Commit]\<rparr>))"

text \<open>
  \<^verbatim>\<open>with self: body\<close>.  \<^verbatim>\<open>__exit__\<close> runs whether the body returned or raised; it
  returns \<^verbatim>\<open>None\<close>, so an exception of the body is raised again after it.
\<close>

definition with_self :: "'a action \<Rightarrow> 'a action" where
  "with_self body db =
     (case enter db of
        (Inl e, db1) \<Rightarrow> (Inl e, db1)
      | (Inr u, db1) \<Rightarrow>
          (case body db1 of (r, db2) \<Rightarrow>
             (case exit db2 of
                (Inl e, db3) \<Rightarrow> (Inl e, db3)
              | (Inr u, db3) \<Rightarrow> (r, db3))))"

text \<open>Attribute reads on what \<^verbatim>\<open>acquire\<close> returned: a row with that column, or not.\<close>

fun author_id :: "row option \<Rightarrow> py_error + bytes option" where
  "author_id (Some (sch_Author i n)) = Inr i"
| "author_id (Some (sch_PaperAuthor p a k)) = Inr a"
| "author_id (Some (sch_AuthorLink a t l)) = Inr a"
| "author_id (Some (sch_AuthorAlias a s)) = Inr a"
| "author_id (Some (sch_AuthorInstitution a i r s e)) = Inr a"
| "author_id _ = Inl AttributeError"

fun institution_id :: "row option \<Rightarrow> py_error + bytes option" where
  "institution_id (Some (sch_Institution i n c)) = Inr i"
| "institution_id (Some (sch_AuthorInstitution a i r s e)) = Inr i"
| "institution_id _ = Inl AttributeError"

fun release_id :: "row option \<Rightarrow> py_error + bytes option" where
  "release_id (Some (sch_Release i d p v pu ve)) = Inr i"
| "release_id _ = Inl AttributeError"

fun topic_id :: "row option \<Rightarrow> py_error + bytes option" where
  "topic_id (Some (sch_Topic i n)) = Inr i"
| "topic_id _ = Inl AttributeError"

fun venue_id :: "row option \<Rightarrow> py_error + bytes option" where
  "venue_id (Some (sch_Venue i t n)) = Inr i"
| "venue_id (Some (sch_Release i d p v pu ve)) = Inr ve"
| "venue_id (Some (sch_VenueLink i t l)) = Inr i"
| "venue_id _ = Inl AttributeError"

definition attr :: "(row option \<Rightarrow> py_error + 'a) \<Rightarrow> row option \<Rightarrow> 'a action" where
  "attr get obj db = (get obj, db)"

section \<open>db/database.py: acquire\<close>

text \<open>
  Python truthiness of \<^verbatim>\<open>x.hashid()\<close>: \<^verbatim>\<open>None\<close> and the empty \<^verbatim>\<open>bytes\<close> are false.
\<close>

definition truthy_hid :: "bytes option \<Rightarrow> bool" where
  "truthy_hid hid = (case hid of None \<Rightarrow> False | Some b \<Rightarrow> truthy_bytes b)"

text \<open>
  \<^verbatim>\<open>
  def acquire(self, x):
      if not (hid := x.hashid()) or hid not in self.cache:
          # If hid is None that will just always overwrite the value, which
          # is fine.
          self.cache[hid] = self._acquire(x)
      return self.cache[hid]
  \<close>
  \<open>acquire_with hid run\<close> is this body for an entity whose \<^verbatim>\<open>hashid()\<close> is \<open>hid\<close> and
  whose \<^verbatim>\<open>self._acquire(x)\<close> is \<open>run\<close>.
\<close>

definition acquire_with :: "bytes option \<Rightarrow> row option action \<Rightarrow> row option action" where
  "acquire_with hid run db =
     (if \<not> truthy_hid hid \<or> map_of (cache db) hid = None
      then (case run db of
              (Inl e, db') \<Rightarrow> (Inl e, db')
            | (Inr r, db') \<Rightarrow> (Inr r, db'\<lparr>cache := AList.update hid r (cache db')\<rparr>))
      else (case map_of (cache db) hid of
              None \<Rightarrow> (Inl KeyError, db)
            | Some r \<Rightarrow> (Inr r, db)))"

text \<open>
  The branches of \<^verbatim>\<open>_acquire\<close>, one definition per \<^verbatim>\<open>case\<close>, leaves of the entity
  tree first; \<open>acquire_K\<close> is \<^verbatim>\<open>acquire\<close> on an entity of class \<open>K\<close>.  The bodies of the
  loops of the \<^verbatim>\<open>Paper\<close> branch are definitions of their own
  (\<open>acquire_paper_author\<close>, \<open>acquire_paper_affiliation\<close>, \<open>acquire_paper_release\<close>,
  \<open>acquire_paper_topic\<close>).

  \<^verbatim>\<open>
  case Institution(name=name, category=category) as institution:
      aa = sch.Institution(institution_id=institution.hashid(), name=name, category=category)
      self.session.merge(aa)
      return aa
  \<close>
\<close>

definition acquire_inner_Institution :: "externals \<Rightarrow> institution \<Rightarrow> row option action" where
  "acquire_inner_Institution E institution =
     (let aa = sch_Institution (hashid E (EInstitution institution))
                 (institution_name institution) (institution_category institution)
      in and_then (session_issue (Merge aa)) (\<lambda>_. returns (Some aa)))"

definition acquire_Institution :: "externals \<Rightarrow> institution \<Rightarrow> row option action" where
  "acquire_Institution E institution =
     acquire_with (hashid E (EInstitution institution)) (acquire_inner_Institution E institution)"

text \<open>
  \<^verbatim>\<open>
  case Topic(name=name) as topic:
      tt = sch.Topic(topic_id=topic.hashid(), topic=name)
      self.session.merge(tt)
      return tt
  \<close>
\<close>

definition acquire_inner_Topic :: "externals \<Rightarrow> topic \<Rightarrow> row option action" where
  "acquire_inner_Topic E topic =
     (let tt = sch_Topic (hashid E (ETopic topic)) (topic_name topic)
      in and_then (session_issue (Merge tt)) (\<lambda>_. returns (Some tt)))"

definition acquire_Topic :: "externals \<Rightarrow> topic \<Rightarrow> row option action" where
  "acquire_Topic E topic = acquire_with (hashid E (ETopic topic)) (acquire_inner_Topic E topic)"

text \<open>
  \<^verbatim>\<open>
  case Venue(type=vtype, name=name) as venue:
      vv = sch.Venue(venue_id=venue.hashid(), type=vtype, name=name)
      self.session.merge(vv)
      for link in venue.links:
          lnk = sch.VenueLink(venue_id=vv.venue_id, type=link.type, link=link.link)
          self.session.merge(lnk)
      return vv
  \<close>
\<close>

definition acquire_inner_Venue :: "externals \<Rightarrow> venue \<Rightarrow> row option action" where
  "acquire_inner_Venue E venue =
     (let vid = hashid E (EVenue venue);
          vv = sch_Venue vid (venue_type venue) (venue_name venue)
      in and_then (session_issue (Merge vv)) (\<lambda>_.
         and_then (for_each (\<lambda>link.
             session_issue (Merge (sch_VenueLink vid (link_type link) (link_link link))))
           (venue_links venue)) (\<lambda>_.
         returns (Some vv))))"

definition acquire_Venue :: "externals \<Rightarrow> venue \<Rightarrow> row option action" where
  "acquire_Venue E venue = acquire_with (hashid E (EVenue venue)) (acquire_inner_Venue E venue)"

text \<open>
  \<^verbatim>\<open>
  case Release(date=date, date_precision=date_precision, volume=volume,
               publisher=publisher) as release:
      vv = self.acquire(release.venue)
      rr = sch.Release(release_id=release.hashid(), date=date, date_precision=date_precision,
                       volume=volume, publisher=publisher, venue_id=vv.venue_id)
      self.session.merge(rr)
      return rr
  \<close>
\<close>

definition acquire_inner_Release :: "externals \<Rightarrow> release \<Rightarrow> row option action" where
  "acquire_inner_Release E release =
     and_then (acquire_Venue E (release_venue release)) (\<lambda>vv.
     and_then (attr venue_id vv) (\<lambda>vid.
       (let rr = sch_Release (hashid E (ERelease release)) (release_date release)
                   (release_date_precision release) (release_volume release)
                   (release_publisher release) vid
        in and_then (session_issue (Merge rr)) (\<lambda>_. returns (Some rr)))))"

definition acquire_Release :: "externals \<Rightarrow> release \<Rightarrow> row option action" where
  "acquire_Release E release =
     acquire_with (hashid E (ERelease release)) (acquire_inner_Release E release)"

text \<open>
  \<^verbatim>\<open>
  case AuthorQuery(author_id=author_id, author=author):
      for link in author.links:
          lnk = sch.AuthorLink(author_id=author_id, type=link.type, link=link.link)
          self.session.merge(lnk)
      for alias in author.aliases:
          aal = sch.AuthorAlias(author_id=author_id, alias=alias)
          self.session.merge(aal)
      for role in author.roles:
          rr = sch.AuthorInstitution(
              author_id=author_id,
              institution_id=self.acquire(role.institution).institution_id,
              role=role.role, start_date=role.start_date, end_date=role.end_date)
          self.session.merge(rr)
  \<close>
  The branch has no \<^verbatim>\<open>return\<close>: its value is \<^verbatim>\<open>None\<close>.
\<close>

definition acquire_inner_AuthorQuery :: "externals \<Rightarrow> bytes option \<Rightarrow> author \<Rightarrow> row option action" where
  "acquire_inner_AuthorQuery E aid author =
     and_then (for_each (\<lambda>link.
         session_issue (Merge (sch_AuthorLink aid (link_type link) (link_link link))))
       (author_links author)) (\<lambda>_.
     and_then (for_each (\<lambda>alias. session_issue (Merge (sch_AuthorAlias aid alias)))
       (author_aliases author)) (\<lambda>_.
     and_then (for_each (\<lambda>role.
         and_then (acquire_Institution E (role_institution role)) (\<lambda>inst.
         and_then (attr institution_id inst) (\<lambda>iid.
           session_issue (Merge (sch_AuthorInstitution aid iid (role_role role)
             (role_start_date role) (role_end_date role))))))
       (author_roles author)) (\<lambda>_.
     returns None)))"

definition acquire_AuthorQuery :: "externals \<Rightarrow> bytes option \<Rightarrow> author \<Rightarrow> row option action" where
  "acquire_AuthorQuery E aid author =
     acquire_with (hashid E (EAuthorQuery aid author)) (acquire_inner_AuthorQuery E aid author)"

text \<open>
  \<^verbatim>\<open>
  case Author(name=name) as author:
      aa = sch.Author(author_id=author.hashid(), name=name)
      self.session.merge(aa)
      self.acquire(AuthorQuery(author_id=aa.author_id, author=author))
      return aa
  \<close>
\<close>

definition acquire_inner_Author :: "externals \<Rightarrow> author \<Rightarrow> row option action" where
  "acquire_inner_Author E author =
     (let aid = hashid E (EAuthor author);
          aa = sch_Author aid (author_name author)
      in and_then (session_issue (Merge aa)) (\<lambda>_.
         and_then (acquire_AuthorQuery E aid author) (\<lambda>_.
         returns (Some aa))))"

definition acquire_Author :: "externals \<Rightarrow> author \<Rightarrow> row option action" where
  "acquire_Author E author =
     acquire_with (hashid E (EAuthor author)) (acquire_inner_Author E author)"

text \<open>
  \<^verbatim>\<open>
  case Paper(title=title, abstract=abstract, citation_count=cc) as paper:
      pp = sch.Paper(paper_id=paper.hashid(), title=title, abstract=abstract,
                     citation_count=cc)
      self.session.merge(pp)
      for i, author in enumerate(paper.authors):
          aa = self.acquire(author)
          pa = sch.PaperAuthor(paper_id=pp.paper_id, author_id=aa.author_id,
                               author_position=i)
          self.session.merge(pa)
          for affiliation in author.affiliations:
              inst = self.acquire(affiliation)
              stmt = (insert(sch.t_paper_author_institution)
                      .values(paper_id=pp.paper_id, author_id=aa.author_id,
                              institution_id=inst.institution_id)
                      .on_conflict_do_nothing())
              self.session.execute(stmt)
      for release in paper.releases:
          rr = self.acquire(release)
          stmt = (insert(sch.t_paper_release)
                  .values(paper_id=pp.paper_id, release_id=rr.release_id)
                  .on_conflict_do_nothing())
          self.session.execute(stmt)
      for topic in paper.topics:
          tt = self.acquire(topic)
          stmt = (insert(sch.t_paper_topic)
                  .values(paper_id=pp.paper_id, topic_id=tt.topic_id)
                  .on_conflict_do_nothing())
          self.session.execute(stmt)
      for link in paper.links:
          lnk = sch.PaperLink(paper_id=pp.paper_id, type=link.type, link=link.link)
          self.session.merge(lnk)
      for scraper in paper.scrapers:
          psps = sch.PaperScraper(paper_id=pp.paper_id, scraper=scraper)
          self.session.merge(psps)
      return pp
  \<close>
\<close>

definition acquire_paper_affiliation ::
  "externals \<Rightarrow> bytes option \<Rightarrow> bytes option \<Rightarrow> institution \<Rightarrow> unit action"
where
  "acquire_paper_affiliation E pid aid affiliation =
     and_then (acquire_Institution E affiliation) (\<lambda>inst.
     and_then (attr institution_id inst) (\<lambda>iid.
       session_issue (InsertIgnore (t_paper_author_institution pid aid iid))))"

definition acquire_paper_author :: "externals \<Rightarrow> bytes option \<Rightarrow> nat \<times> author \<Rightarrow> unit action" where
  "acquire_paper_author E pid ia =
     (case ia of (i, author) \<Rightarrow>
        and_then (acquire_Author E author) (\<lambda>aa.
        and_then (attr author_id aa) (\<lambda>aid.
        and_then (session_issue (Merge (sch_PaperAuthor pid aid i))) (\<lambda>_.
        for_each (acquire_paper_affiliation E pid aid) (author_affiliations author)))))"

definition acquire_paper_release :: "externals \<Rightarrow> bytes option \<Rightarrow> release \<Rightarrow> unit action" where
  "acquire_paper_release E pid release =
     and_then (acquire_Release E release) (\<lambda>rr.
     and_then (attr release_id rr) (\<lambda>rid.
       session_issue (InsertIgnore (t_paper_release pid rid))))"

definition acquire_paper_topic :: "externals \<Rightarrow> bytes option \<Rightarrow> topic \<Rightarrow> unit action" where
  "acquire_paper_topic E pid topic =
     and_then (acquire_Topic E topic) (\<lambda>tt.
     and_then (attr topic_id tt) (\<lambda>tid.
       session_issue (InsertIgnore (t_paper_topic pid tid))))"

definition acquire_inner_Paper :: "externals \<Rightarrow> paper \<Rightarrow> row option action" where
  "acquire_inner_Paper E paper =
     (let pid = hashid E (EPaper paper);
          pp = sch_Paper pid (paper_title paper) (paper_abstract paper)
                 (paper_citation_count paper)
      in and_then (session_issue (Merge pp)) (\<lambda>_.
         and_then (for_each (acquire_paper_author E pid) (List.enumerate 0 (paper_authors paper))) (\<lambda>_.
         and_then (for_each (acquire_paper_release E pid) (paper_releases paper)) (\<lambda>_.
         and_then (for_each (acquire_paper_topic E pid) (paper_topics paper)) (\<lambda>_.
         and_then (for_each (\<lambda>link.
             session_issue (Merge (sch_PaperLink pid (link_type link) (link_link link))))
           (paper_links paper)) (\<lambda>_.
         and_then (for_each (\<lambda>scraper. session_issue (Merge (sch_PaperScraper pid scraper)))
           (paper_scrapers paper)) (\<lambda>_.
         returns (Some pp))))))))"

definition acquire_Paper :: "externals \<Rightarrow> paper \<Rightarrow> row option action" where
  "acquire_Paper E paper = acquire_with (hashid E (EPaper paper)) (acquire_inner_Paper E paper)"

text \<open>
  \<^verbatim>\<open>_acquire\<close> as the \<^verbatim>\<open>match\<close> over the class of \<open>x\<close>, with
  \<^verbatim>\<open>case _: raise TypeError(f"Cannot acquire: {type(x).__name__}")\<close> last, and
  \<^verbatim>\<open>acquire\<close> on any entity.
\<close>

fun acquire_inner :: "externals \<Rightarrow> entity \<Rightarrow> row option action" where
  "acquire_inner E (EPaper paper) = acquire_inner_Paper E paper"
| "acquire_inner E (EAuthor author) = acquire_inner_Author E author"
| "acquire_inner E (EInstitution institution) = acquire_inner_Institution E institution"
| "acquire_inner E (ERelease release) = acquire_inner_Release E release"
| "acquire_inner E (ETopic topic) = acquire_inner_Topic E topic"
| "acquire_inner E (EVenue venue) = acquire_inner_Venue E venue"
| "acquire_inner E (EAuthorQuery aid author) = acquire_inner_AuthorQuery E aid author"
| "acquire_inner E (EOther tname) = raises TypeError"

definition acquire :: "externals \<Rightarrow> entity \<Rightarrow> row option action" where
  "acquire E x = acquire_with (hashid E x) (acquire_inner E x)"

section \<open>db/database.py: import_all\<close>




section \<open>db/database.py: replay\<close>

text \<open>
  \<^verbatim>\<open>
  def _accumulate_history_files(self, x, before, after, results):
      match x:
          case str() as pth:
              return self._accumulate_history_files(Path(pth), before, after, results)
          case Path() as pth:
              if pth.is_dir():
                  self._accumulate_history_files(list(pth.iterdir()), before, after, results)
              else:
                  results.append(pth)
          case [*paths]:
              paths = list(sorted(paths))
              if before:
                  paths = [x for x in paths if x.name[: len(before)] < before]
              if after:
                  paths = [x for x in paths if x.name[: len(after)] > after]
              for subpth in paths:
                  self._accumulate_history_files(subpth, before, after, results)
          case _:
              assert False
  \<close>
  The argument \<open>x\<close> is a path (\<open>Inl\<close>) or a list of paths (\<open>Inr\<close>); \<^verbatim>\<open>results\<close> is
  passed and returned.  The entries of one directory are sorted by their names
  (\<^verbatim>\<open>sorted\<close> is stable, and so is \<open>sort_key\<close>); strings compare lexicographically by
  character code.  \<^verbatim>\<open>if before:\<close> is Python truthiness: \<^verbatim>\<open>None\<close> and the empty string
  are false.  The bounds \<^verbatim>\<open>before\<close> and \<^verbatim>\<open>after\<close> are written \<open>bef\<close> and \<open>aft\<close>.
\<close>

definition truthy_str :: "string option \<Rightarrow> bool" where
  "truthy_str s = (case s of None \<Rightarrow> False | Some t \<Rightarrow> t \<noteq> [])"

definition select_paths :: "string option \<Rightarrow> string option \<Rightarrow> fsnode list \<Rightarrow> fsnode list" where
  "select_paths bef aft paths =
     (let paths1 = sort_key node_name paths;
          paths2 = (if truthy_str bef
                    then filter (\<lambda>x. take (length (the bef)) (node_name x) < the bef) paths1
                    else paths1);
          paths3 = (if truthy_str aft
                    then filter (\<lambda>x. take (length (the aft)) (node_name x) > the aft) paths2
                    else paths2)
      in paths3)"

function accumulate_history_files ::
  "string option \<Rightarrow> string option \<Rightarrow> fsnode + fsnode list \<Rightarrow> fsnode list \<Rightarrow> fsnode list"
where
  "accumulate_history_files bef aft (Inl (Dir n entries)) results =
     accumulate_history_files bef aft (Inr entries) results"
| "accumulate_history_files bef aft (Inl (File n ls)) results = results @ [File n ls]"
| "accumulate_history_files bef aft (Inr paths) results =
     foldl (\<lambda>res subpth. accumulate_history_files bef aft (Inl subpth) res)
       results (select_paths bef aft paths)"
  by pat_completeness auto

termination
proof (relation "measure (\<lambda>(bef, aft, x, results).
    case x of Inl pth \<Rightarrow> 2 * size pth | Inr paths \<Rightarrow> 2 * size_list size paths + 1)")
  show "wf (measure (\<lambda>(bef, aft, x, results).
    case x of Inl pth \<Rightarrow> 2 * size pth | Inr paths \<Rightarrow> 2 * size_list size paths + 1))"
    by simp
next
  fix bef aft :: "string option" and n :: string and entries results :: "fsnode list"
  show "((bef, aft, Inr entries, results), (bef, aft, Inl (Dir n entries), results))
    \<in> measure (\<lambda>(bef, aft, x, results).
        case x of Inl pth \<Rightarrow> 2 * size pth | Inr paths \<Rightarrow> 2 * size_list size paths + 1)"
    by simp
next
  fix bef aft :: "string option" and paths results res :: "fsnode list" and subpth :: fsnode
  assume "subpth \<in> set (select_paths bef aft paths)"
  then have "subpth \<in> set paths"
    by (auto simp: select_paths_def Let_def split: if_splits)
  then have "size subpth \<le> size_list size paths"
    by (rule size_list_estimation') simp
  then show "((bef, aft, Inl subpth, res), (bef, aft, Inr paths, results))
    \<in> measure (\<lambda>(bef, aft, x, results).
        case x of Inl pth \<Rightarrow> 2 * size pth | Inr paths \<Rightarrow> 2 * size_list size paths + 1)"
    by simp
qed

text \<open>
  \<^verbatim>\<open>
  def replay(self, history=None, before=None, after=None):
      history = history or config.history_root
      history_files = []
      self._accumulate_history_files(history, before, after, history_files)
      for history_file in history_files:
          print(f"Replaying {history_file}")
          with self:
              with open(history_file, "r") as f:
                  lines = f.readlines()
                  for l in tqdm(lines):
                      self.acquire(from_dict(json.loads(l)))
  \<close>
\<close>

definition acquire_line :: "externals \<Rightarrow> string \<Rightarrow> unit action" where
  "acquire_line E l =
     and_then (\<lambda>db. (from_json E l, db)) (\<lambda>x. and_then (acquire E x) (\<lambda>_. returns ()))"

definition replay_file :: "externals \<Rightarrow> fsnode \<Rightarrow> unit action" where
  "replay_file E history_file = with_self (for_each (acquire_line E) (file_lines history_file))"

definition replay :: "externals \<Rightarrow> fsnode option \<Rightarrow> string option \<Rightarrow> string option \<Rightarrow> unit action" where
  "replay E history bef aft =
     (let root = (case history of None \<Rightarrow> config_history_root E | Some h \<Rightarrow> h)
      in for_each (replay_file E) (accumulate_history_files bef aft (Inl root) []))"

section \<open>Notions used to state and prove the properties of the Database\<close>

text \<open>
  An action is \<open>regular\<close> when it only reads the cache and whether a session is open, and
  only writes the cache and appends operations to the open session (and to the trace):
  \<open>f\<close> maps the cache and the flag to the result, the operations issued and the new cache.
\<close>

definition regular :: "'a action \<Rightarrow> bool" where
  "regular m =
     (\<exists>f. \<forall>db. m db =
        (case f (cache db) (session db = None) of
           (r, ops, c') \<Rightarrow>
             (r, db\<lparr>cache := c', session := map_option (\<lambda>p. p @ ops) (session db),
                     trace := trace db @ map Issued ops\<rparr>)))"

text \<open>
  What a list of operations does to the row stored under one key \<open>k\<close>.
\<close>

definition cell_op :: "(row \<Rightarrow> 'k) \<Rightarrow> 'k \<Rightarrow> row option \<Rightarrow> db_op \<Rightarrow> row option" where
  "cell_op pk k c op =
     (case op of
        Merge r \<Rightarrow> if pk r = k then Some r else c
      | InsertIgnore r \<Rightarrow> if pk r = k \<and> c = None then Some r else c)"

text \<open>
  An entry passes the range filter of \<^verbatim>\<open>_accumulate_history_files\<close> when the prefix of its
  name is below \<^verbatim>\<open>before\<close> and above \<^verbatim>\<open>after\<close>, a false bound being no bound.
  \<open>reaches bef aft root f\<close>: the file \<open>f\<close> is \<open>root\<close> itself, or lies under the directory
  \<open>root\<close> with every entry on the way from \<open>root\<close> (excluded) to \<open>f\<close> (included) passing
  the filter.
\<close>

definition in_range :: "string option \<Rightarrow> string option \<Rightarrow> fsnode \<Rightarrow> bool" where
  "in_range bef aft x =
     ((if truthy_str bef then take (length (the bef)) (node_name x) < the bef else True)
      \<and> (if truthy_str aft then take (length (the aft)) (node_name x) > the aft else True))"

fun reaches :: "string option \<Rightarrow> string option \<Rightarrow> fsnode \<Rightarrow> fsnode \<Rightarrow> bool" where
  "reaches bef aft (File n ls) f = (f = File n ls)"
| "reaches bef aft (Dir n entries) f =
     (\<exists>c \<in> set entries. in_range bef aft c \<and> reaches bef aft c f)"

text \<open>
  The files that claim C6 names, in the claim's words: every file under \<open>root\<close>,
  directories expanded to their children sorted by name, kept when the prefix of the
  file's name is in the range.
\<close>

fun all_files :: "fsnode \<Rightarrow> fsnode list" where
  "all_files (File n ls) = [File n ls]"
| "all_files (Dir n entries) = concat (map all_files (sort_key node_name entries))"

definition claimed_history_files :: "string option \<Rightarrow> string option \<Rightarrow> fsnode \<Rightarrow> fsnode list" where
  "claimed_history_files bef aft root = filter (in_range bef aft) (all_files root)"

definition is_file :: "fsnode \<Rightarrow> bool" where
  "is_file x = (case x of File n ls \<Rightarrow> True | Dir n entries \<Rightarrow> False)"

section \<open>An instance of the externals and an entity tree, for the examples\<close>

text \<open>
  The examples run the embedding on concrete entities.  \<open>example_hashid\<close> stands for
  \<^verbatim>\<open>hashid()\<close>: two bytes, the first for the class and the second the length of the
  identifying name, and \<^verbatim>\<open>None\<close> for an \<^verbatim>\<open>AuthorQuery\<close>; \<open>example_from_json\<close> parses a
  line into a topic of that name and fails on the line \<^verbatim>\<open>bad\<close>.
\<close>

definition example_hashid :: "entity \<Rightarrow> bytes option" where
  "example_hashid x =
     (case x of
        EPaper p \<Rightarrow> Some [1, of_nat (length (paper_title p))]
      | EAuthor a \<Rightarrow> Some [2, of_nat (length (author_name a))]
      | EInstitution i \<Rightarrow> Some [3, of_nat (length (institution_name i))]
      | ERelease r \<Rightarrow> Some [4, of_nat (length (release_date r))]
      | ETopic t \<Rightarrow> Some [5, of_nat (length (topic_name t))]
      | EVenue v \<Rightarrow> Some [6, of_nat (length (venue_name v))]
      | EAuthorQuery aid a \<Rightarrow> None
      | EOther n \<Rightarrow> Some [7])"

definition example_from_json :: "string \<Rightarrow> py_error + entity" where
  "example_from_json l = (if l = ''bad'' then Inl ParseError else Inr (ETopic (Topic l)))"

definition example_externals :: externals where
  "example_externals =
     \<lparr>hashid = example_hashid, tagged_json = (\<lambda>x. ''{}''), from_json = example_from_json,
      config_history_file = ''history.jsonl'', config_history_root = Dir ''history'' []\<rparr>"

definition example_institution :: institution where
  "example_institution = Institution ''MIT'' ''academia''"

definition example_author :: author where
  "example_author = Author ''A. Smith'' [example_institution] [] [] []"

definition example_paper :: paper where
  "example_paper = Paper ''Graph Theory'' None None [example_author] [] [] [] []"

section \<open>Properties of the identity tag\<close>

lemma bit_127: "bit (127 :: int) k \<longleftrightarrow> k < 7"
proof -
  have "(127 :: int) = mask 7" by (simp add: mask_eq_exp_minus_1)
  then show ?thesis by (simp only: bit_mask_iff) auto
qed

lemma bit_128: "bit (128 :: int) k \<longleftrightarrow> k = 7"
proof -
  have "(128 :: int) = 2 ^ 7" by simp
  then show ?thesis by (simp only: bit_exp_iff) auto
qed

lemma top_bit_set: "drop_bit 7 ((n :: 8 word) OR 128) = 1"
  by (rule bit_word_eqI) (auto simp: bit_simps bit_128 dest: bit_imp_le_length)

lemma top_bit_clear: "drop_bit 7 ((n :: 8 word) AND 127) = 0"
  by (rule bit_word_eqI) (auto simp: bit_simps bit_127)

lemma low_bits_set: "((n :: 8 word) OR 128) AND 127 = n AND 127"
  by (rule bit_word_eqI) (auto simp: bit_simps bit_127 bit_128)

lemma low_bits_clear: "((n :: 8 word) AND 127) AND 127 = n AND 127"
  by (simp add: and.assoc)

text \<open>
  Claim C7.  For every address \<open>u\<close> with at least one byte and every status \<open>s\<close> among
  \<^verbatim>\<open>transient\<close> and \<^verbatim>\<open>canonical\<close>, tagging succeeds, reading the tag back returns
  \<open>s\<close>, and the tagged address differs from \<open>u\<close> at most in the top bit of the first
  byte: the length, every later byte and the low seven bits of the first byte are those of
  \<open>u\<close>.
\<close>

theorem tag_uuid_roundtrip:
  assumes "u \<noteq> []" and "s \<in> set uuid_tags"
  shows "\<exists>t. tag_uuid u s = Inr t \<and> get_uuid_tag t = Inr s
           \<and> length t = length u \<and> tl t = tl u
           \<and> hd t AND 127 = hd u AND 127"
proof -
  from assms(1) obtain n nums where u: "u = n # nums"
    by (cases u) auto
  from assms(2) consider "s = ''transient''" | "s = ''canonical''"
    by (auto simp: uuid_tags_def)
  then show ?thesis
  proof cases
    case 1
    then show ?thesis
      by (simp add: u tag_uuid_def get_uuid_tag_def uuid_tags_def list_get_def
          top_bit_clear low_bits_clear)
  next
    case 2
    then show ?thesis
      by (simp add: u tag_uuid_def get_uuid_tag_def uuid_tags_def list_get_def
          top_bit_set low_bits_set)
  qed
qed

theorem tag_uuid_roundtrip_witness:
  "tag_uuid [0x7F, 0x10] ''canonical'' = Inr [0xFF, 0x10]
   \<and> get_uuid_tag [0xFF, 0x10] = Inr ''canonical''
   \<and> tag_uuid [0xFF, 0x10] ''transient'' = Inr [0x7F, 0x10]
   \<and> get_uuid_tag [0x7F, 0x10] = Inr ''transient''"
proof -
  have a: "[0x7F, 0x10 :: 8 word] \<noteq> []" and b: "''canonical'' \<in> set uuid_tags"
    by (simp_all add: uuid_tags_def)
  from tag_uuid_roundtrip [OF a b] obtain t where
    t: "tag_uuid [0x7F, 0x10] ''canonical'' = Inr t" "get_uuid_tag t = Inr ''canonical''"
    by blast
  have t': "t = [0xFF, 0x10]"
    using t(1) by (simp add: tag_uuid_def uuid_tags_def)
  have c: "tag_uuid [0xFF, 0x10] ''transient'' = Inr [0x7F, 0x10]"
    by (simp add: tag_uuid_def uuid_tags_def)
  have d: "get_uuid_tag [0x7F, 0x10] = Inr ''transient''"
    by (simp add: get_uuid_tag_def uuid_tags_def list_get_def)
  from t t' c d show ?thesis by simp
qed

section \<open>Properties of EquivalenceGroups\<close>






























text \<open>
  The hypothesis on the addresses is the truthiness test of \<^verbatim>\<open>follow\<close>: an address is a
  content fingerprint, a non-empty byte string.  For the empty byte string the test
  \<^verbatim>\<open>if b := ...\<close> takes a stored representative for a missing one, and two addresses
  declared equivalent to it in turn end in different classes.
\<close>

lemma follow_empty_address:
  "equiv_seq init_groups [([], [1]), ([1], [2])]
     = Some \<lparr>representatives = [([], []), ([1], [1]), ([2], [1])], names = [], classes = []\<rparr>
   \<and> groups \<lparr>representatives = [([], []), ([1], [1]), ([2], [1])], names = [], classes = []\<rparr>
     = Some (\<lparr>representatives = [([], []), ([1], [1]), ([2], [1])], names = [], classes = []\<rparr>,
             [([], {[]}), ([1], {[1], [2]})])"
  by code_simp

section \<open>Properties of iteration over EquivalenceGroups\<close>

lemma emit_labelled:
  assumes "\<forall>(main, c) \<in> set gs. map_of ns main \<noteq> None \<and> (\<exists>k. map_of cs main = Some (Some k))"
  shows "emit ns cs gs =
     (map (\<lambda>(main, c). Directive (the (the (map_of cs main))) c)
        (takeWhile (\<lambda>(main, c). card c > 1) gs),
      if \<forall>(main, c) \<in> set gs. card c > 1 then None else Some AssertionError)"
  using assms
proof (induction gs)
  case Nil
  then show ?case by simp
next
  case (Cons p gs)
  obtain main c where p: "p = (main, c)" by (cases p)
  from Cons.prems p obtain l k where l: "map_of ns main = Some l" and k: "map_of cs main = Some (Some k)"
    by auto
  from Cons.prems have "\<forall>(main, c) \<in> set gs. map_of ns main \<noteq> None \<and> (\<exists>k. map_of cs main = Some (Some k))"
    by simp
  from Cons.IH [OF this] show ?case
    by (simp add: p l k)
qed

text \<open>
  Claim C8, as amended.  Iterating visits the classes of \<^verbatim>\<open>groups()\<close> in order.  When the
  representative of every class carries a label and a class (set by \<^verbatim>\<open>equiv_all\<close>), the
  directives yielded are those of the classes before the first class with at most one
  member, one per class and carrying its members; every directive yielded has more than one
  member; when all classes have more than one member the iteration ends normally with one
  directive per class; when some class has at most one member the iteration ends with
  \<^verbatim>\<open>AssertionError\<close>.
\<close>

theorem iter_groups_directives:
  assumes "groups g = Some (g', gs)"
    and "\<forall>(main, c) \<in> set gs.
           map_of (names g') main \<noteq> None \<and> (\<exists>k. map_of (classes g') main = Some (Some k))"
  shows "\<exists>ds err. iter_groups g = Some (g', ds, err)
           \<and> map ids ds = map snd (takeWhile (\<lambda>(main, c). card c > 1) gs)
           \<and> (\<forall>d \<in> set ds. card (ids d) > 1)
           \<and> ((\<forall>(main, c) \<in> set gs. card c > 1) \<longrightarrow> err = None \<and> map ids ds = map snd gs)
           \<and> ((\<exists>(main, c) \<in> set gs. \<not> card c > 1) \<longrightarrow> err = Some AssertionError)"
proof -
  let ?big = "\<lambda>(main, c). card c > (1::nat)"
  let ?mk = "\<lambda>(main, c). Directive (the (the (map_of (classes g') main))) c"
  let ?ds = "map ?mk (takeWhile ?big gs)"
  let ?err = "if \<forall>(main, c) \<in> set gs. card c > 1 then None else Some AssertionError"
  have it: "iter_groups g = Some (g', ?ds, ?err)"
    by (simp add: iter_groups_def assms(1) emit_labelled [OF assms(2)])
  have ids: "map ids ?ds = map snd (takeWhile ?big gs)"
    by (simp add: case_prod_beta comp_def)
  have big: "\<forall>d \<in> set ?ds. card (ids d) > 1"
  proof
    fix d assume "d \<in> set ?ds"
    then obtain p where p: "p \<in> set (takeWhile ?big gs)" and d: "d = ?mk p" by auto
    from p have "?big p" by (rule set_takeWhileD [THEN conjunct2])
    with d show "card (ids d) > 1" by (cases p) simp
  qed
  have all: "(\<forall>(main, c) \<in> set gs. card c > 1) \<longrightarrow> ?err = None \<and> map ids ?ds = map snd gs"
  proof
    assume a: "\<forall>(main, c) \<in> set gs. card c > 1"
    then have tw: "takeWhile ?big gs = gs" by (intro takeWhile_eq_all_conv [THEN iffD2]) auto
    from ids have "map ids ?ds = map snd gs" unfolding tw .
    with a show "?err = None \<and> map ids ?ds = map snd gs" by simp
  qed
  have small: "(\<exists>(main, c) \<in> set gs. \<not> card c > 1) \<longrightarrow> ?err = Some AssertionError"
    by auto
  show ?thesis
    by (intro exI [of _ ?ds] exI [of _ ?err] conjI) (fact it ids big all small)+
qed

theorem iter_groups_directives_witness:
  "equiv_all init_groups [[1], [2], [3]] (Some ''Merge'') (Some ''x'')
     = Some \<lparr>representatives = [([1], [1]), ([2], [1]), ([3], [1])],
             names = [([1], Some ''x''), ([2], Some ''x''), ([3], Some ''x'')],
             classes = [([1], Some ''Merge''), ([2], Some ''Merge''), ([3], Some ''Merge'')]\<rparr>
   \<and> (\<exists>g' ds. iter_groups \<lparr>representatives = [([1], [1]), ([2], [1]), ([3], [1])],
             names = [([1], Some ''x''), ([2], Some ''x''), ([3], Some ''x'')],
             classes = [([1], Some ''Merge''), ([2], Some ''Merge''), ([3], Some ''Merge'')]\<rparr>
         = Some (g', ds, None) \<and> ds = [Directive ''Merge'' {[1], [2], [3]}]
           \<and> map ids ds = [{[1], [2], [3]}])"
proof -
  let ?G = "\<lparr>representatives = [([1], [1]), ([2], [1]), ([3], [1])],
             names = [([1], Some ''x''), ([2], Some ''x''), ([3], Some ''x'')],
             classes = [([1], Some ''Merge''), ([2], Some ''Merge''), ([3], Some ''Merge'')]\<rparr>"
  let ?gs = "[([1], {[1], [2], [3]})] :: (bytes \<times> bytes set) list"
  have e: "equiv_all init_groups [[1], [2], [3]] (Some ''Merge'') (Some ''x'') = Some ?G"
    by code_simp
  have g: "groups ?G = Some (?G, ?gs)"
    by code_simp
  have l: "\<forall>(main, c) \<in> set ?gs.
      map_of (names ?G) main \<noteq> None \<and> (\<exists>k. map_of (classes ?G) main = Some (Some k))"
    by simp
  from iter_groups_directives [OF g l] obtain ds err where
    H: "iter_groups ?G = Some (?G, ds, err)
      \<and> map ids ds = map snd (takeWhile (\<lambda>(main, c). card c > 1) ?gs)
      \<and> (\<forall>d \<in> set ds. card (ids d) > 1)
      \<and> ((\<forall>(main, c) \<in> set ?gs. card c > 1) \<longrightarrow> err = None \<and> map ids ds = map snd ?gs)
      \<and> ((\<exists>(main, c) \<in> set ?gs. \<not> card c > 1) \<longrightarrow> err = Some AssertionError)"
    by (elim exE)
  from H have it: "iter_groups ?G = Some (?G, ds, err)" by (rule conjunct1)
  have "\<forall>(main, c) \<in> set ?gs. card c > 1" by simp
  with H have en: "err = None" and m: "map ids ds = [{[1], [2], [3]}]" by simp_all
  have i: "iter_groups ?G = Some (?G, [Directive ''Merge'' {[1], [2], [3]}], None)"
    by code_simp
  with it have d: "ds = [Directive ''Merge'' {[1], [2], [3]}]" by simp
  from it en have "iter_groups ?G = Some (?G, ds, None)" by simp
  with d m have "\<exists>g' ds. iter_groups ?G = Some (g', ds, None)
      \<and> ds = [Directive ''Merge'' {[1], [2], [3]}] \<and> map ids ds = [{[1], [2], [3]}]"
    by (intro exI [of _ ?G] exI [of _ ds]) simp
  with e show ?thesis by (rule conjI)
qed

text \<open>
  Claim C8 as stated fails: after \<^verbatim>\<open>equiv_all([x, x])\<close> (which calls \<^verbatim>\<open>equiv(x, x)\<close>) the
  class of \<open>x\<close> has one member; a later class with two members gets no directive, because
  the \<^verbatim>\<open>assert\<close> ends the iteration at the first class.
\<close>

theorem iter_groups_singleton_counterexample:
  "equiv_all init_groups [[1], [1]] (Some ''Merge'') (Some ''x'')
     = Some \<lparr>representatives = [([1], [1])], names = [([1], Some ''x'')],
             classes = [([1], Some ''Merge'')]\<rparr>
   \<and> equiv_all \<lparr>representatives = [([1], [1])], names = [([1], Some ''x'')],
             classes = [([1], Some ''Merge'')]\<rparr> [[2], [3]] (Some ''Merge'') (Some ''y'')
     = Some \<lparr>representatives = [([1], [1]), ([2], [2]), ([3], [2])],
             names = [([1], Some ''x''), ([2], Some ''y''), ([3], Some ''y'')],
             classes = [([1], Some ''Merge''), ([2], Some ''Merge''), ([3], Some ''Merge'')]\<rparr>
   \<and> groups \<lparr>representatives = [([1], [1]), ([2], [2]), ([3], [2])],
             names = [([1], Some ''x''), ([2], Some ''y''), ([3], Some ''y'')],
             classes = [([1], Some ''Merge''), ([2], Some ''Merge''), ([3], Some ''Merge'')]\<rparr>
     = Some (\<lparr>representatives = [([1], [1]), ([2], [2]), ([3], [2])],
             names = [([1], Some ''x''), ([2], Some ''y''), ([3], Some ''y'')],
             classes = [([1], Some ''Merge''), ([2], Some ''Merge''), ([3], Some ''Merge'')]\<rparr>,
            [([1], {[1]}), ([2], {[2], [3]})])
   \<and> iter_groups \<lparr>representatives = [([1], [1]), ([2], [2]), ([3], [2])],
             names = [([1], Some ''x''), ([2], Some ''y''), ([3], Some ''y'')],
             classes = [([1], Some ''Merge''), ([2], Some ''Merge''), ([3], Some ''Merge'')]\<rparr>
     = Some (\<lparr>representatives = [([1], [1]), ([2], [2]), ([3], [2])],
             names = [([1], Some ''x''), ([2], Some ''y''), ([3], Some ''y'')],
             classes = [([1], Some ''Merge''), ([2], Some ''Merge''), ([3], Some ''Merge'')]\<rparr>,
            [], Some AssertionError)
   \<and> card {[2], [3 :: 8 word]} = 2"
  by code_simp

section \<open>Regular actions\<close>

lemma regularI:
  assumes "\<And>db. m db =
        (case f (cache db) (session db = None) of
           (r, ops, c') \<Rightarrow>
             (r, db\<lparr>cache := c', session := map_option (\<lambda>p. p @ ops) (session db),
                     trace := trace db @ map Issued ops\<rparr>))"
  shows "regular m"
  unfolding regular_def using assms by blast

lemma map_option_append_Nil: "map_option (\<lambda>p. p) s = s"
  by (cases s) simp_all

lemma regular_returns: "regular (returns v)"
  by (rule regularI [where f = "\<lambda>c b. (Inr v, [], c)"])
    (simp add: returns_def map_option_append_Nil)

lemma regular_raises: "regular (raises e)"
  by (rule regularI [where f = "\<lambda>c b. (Inl e, [], c)"])
    (simp add: raises_def map_option_append_Nil)

lemma regular_attr: "regular (attr get obj)"
  by (rule regularI [where f = "\<lambda>c b. (get obj, [], c)"])
    (simp add: attr_def map_option_append_Nil)

lemma regular_session_issue: "regular (session_issue op)"
  by (rule regularI [where f = "\<lambda>c b. if b then (Inl AttributeError, [], c) else (Inr (), [op], c)"])
    (auto simp: session_issue_def map_option_append_Nil split: option.splits)

lemma regular_and_then:
  assumes m: "regular m" and g: "\<And>v. regular (g v)"
  shows "regular (and_then m g)"
proof -
  from m obtain f where f: "\<And>db. m db =
        (case f (cache db) (session db = None) of
           (r, ops, c') \<Rightarrow>
             (r, db\<lparr>cache := c', session := map_option (\<lambda>p. p @ ops) (session db),
                     trace := trace db @ map Issued ops\<rparr>))"
    unfolding regular_def by blast
  from g have "\<forall>v. \<exists>h. \<forall>db. g v db =
        (case h (cache db) (session db = None) of
           (r, ops, c') \<Rightarrow>
             (r, db\<lparr>cache := c', session := map_option (\<lambda>p. p @ ops) (session db),
                     trace := trace db @ map Issued ops\<rparr>))"
    unfolding regular_def by blast
  then have "\<exists>h. \<forall>v. \<forall>db. g v db =
        (case h v (cache db) (session db = None) of
           (r, ops, c') \<Rightarrow>
             (r, db\<lparr>cache := c', session := map_option (\<lambda>p. p @ ops) (session db),
                     trace := trace db @ map Issued ops\<rparr>))"
    by (rule choice)
  then obtain h where h': "\<forall>v. \<forall>db. g v db =
        (case h v (cache db) (session db = None) of
           (r, ops, c') \<Rightarrow>
             (r, db\<lparr>cache := c', session := map_option (\<lambda>p. p @ ops) (session db),
                     trace := trace db @ map Issued ops\<rparr>))" ..
  have h: "g v db =
        (case h v (cache db) (session db = None) of
           (r, ops, c') \<Rightarrow>
             (r, db\<lparr>cache := c', session := map_option (\<lambda>p. p @ ops) (session db),
                     trace := trace db @ map Issued ops\<rparr>))" for v db
    using h' by simp
  let ?k = "\<lambda>c b. case f c b of
              (Inl e, ops, c1) \<Rightarrow> (Inl e, ops, c1)
            | (Inr v, ops, c1) \<Rightarrow> (case h v c1 b of (r, ops2, c2) \<Rightarrow> (r, ops @ ops2, c2))"
  show ?thesis
  proof (rule regularI [where f = ?k])
    fix db :: database
    obtain r ops c1 where fr: "f (cache db) (session db = None) = (r, ops, c1)"
      by (cases "f (cache db) (session db = None)")
    show "and_then m g db =
        (case ?k (cache db) (session db = None) of
           (r, ops, c') \<Rightarrow>
             (r, db\<lparr>cache := c', session := map_option (\<lambda>p. p @ ops) (session db),
                     trace := trace db @ map Issued ops\<rparr>))"
    proof (cases r)
      case (Inl e)
      with fr show ?thesis by (simp add: and_then_def f)
    next
      case (Inr v)
      let ?db1 = "db\<lparr>cache := c1, session := map_option (\<lambda>p. p @ ops) (session db),
                     trace := trace db @ map Issued ops\<rparr>"
      obtain r2 ops2 c2 where hr: "h v c1 (session db = None) = (r2, ops2, c2)"
        by (cases "h v c1 (session db = None)")
      have "g v ?db1 = (r2, ?db1\<lparr>cache := c2, session := map_option (\<lambda>p. p @ ops2) (session ?db1),
                     trace := trace ?db1 @ map Issued ops2\<rparr>)"
        by (simp add: h hr)
      with fr Inr hr show ?thesis
        by (simp add: and_then_def f option.map_comp comp_def)
    qed
  qed
qed

lemma regular_for_each:
  assumes "\<And>x. regular (body x)"
  shows "regular (for_each body xs)"
  by (induction xs) (auto intro: regular_returns regular_and_then assms)

lemma regular_case_prod: "(\<And>a b. regular (f a b)) \<Longrightarrow> regular (case p of (a, b) \<Rightarrow> f a b)"
  by (cases p) simp

lemma regular_Let: "(\<And>v. regular (f v)) \<Longrightarrow> regular (Let x f)"
  by (simp add: Let_def)

lemma regular_acquire_with:
  assumes "regular run"
  shows "regular (acquire_with hid run)"
proof -
  from assms obtain f where f: "\<And>db. run db =
        (case f (cache db) (session db = None) of
           (r, ops, c') \<Rightarrow>
             (r, db\<lparr>cache := c', session := map_option (\<lambda>p. p @ ops) (session db),
                     trace := trace db @ map Issued ops\<rparr>))"
    unfolding regular_def by blast
  let ?k = "\<lambda>c b. if \<not> truthy_hid hid \<or> map_of c hid = None
      then (case f c b of
              (Inl e, ops, c1) \<Rightarrow> (Inl e, ops, c1)
            | (Inr r, ops, c1) \<Rightarrow> (Inr r, ops, AList.update hid r c1))
      else (case map_of c hid of None \<Rightarrow> (Inl KeyError, [], c) | Some r \<Rightarrow> (Inr r, [], c))"
  show ?thesis
  proof (rule regularI [where f = ?k])
    fix db :: database
    obtain r ops c1 where fr: "f (cache db) (session db = None) = (r, ops, c1)"
      by (cases "f (cache db) (session db = None)")
    show "acquire_with hid run db =
        (case ?k (cache db) (session db = None) of
           (r, ops, c') \<Rightarrow>
             (r, db\<lparr>cache := c', session := map_option (\<lambda>p. p @ ops) (session db),
                     trace := trace db @ map Issued ops\<rparr>))"
      using fr by (cases r) (auto simp: acquire_with_def f map_option_append_Nil split: option.splits)
  qed
qed

lemmas regular_intros =
  regular_returns regular_raises regular_attr regular_session_issue regular_and_then
  regular_for_each regular_case_prod regular_Let regular_acquire_with

lemma regular_acquire_Institution: "regular (acquire_Institution E i)"
  unfolding acquire_Institution_def acquire_inner_Institution_def by (intro regular_intros)

lemma regular_acquire_Topic: "regular (acquire_Topic E t)"
  unfolding acquire_Topic_def acquire_inner_Topic_def by (intro regular_intros)

lemma regular_acquire_Venue: "regular (acquire_Venue E v)"
  unfolding acquire_Venue_def acquire_inner_Venue_def by (intro regular_intros)

lemma regular_acquire_Release: "regular (acquire_Release E r)"
  unfolding acquire_Release_def acquire_inner_Release_def
  by (intro regular_intros regular_acquire_Venue)

lemma regular_acquire_AuthorQuery: "regular (acquire_AuthorQuery E aid a)"
  unfolding acquire_AuthorQuery_def acquire_inner_AuthorQuery_def
  by (intro regular_intros regular_acquire_Institution)

lemma regular_acquire_Author: "regular (acquire_Author E a)"
  unfolding acquire_Author_def acquire_inner_Author_def
  by (intro regular_intros regular_acquire_AuthorQuery)

lemma regular_acquire_paper_affiliation: "regular (acquire_paper_affiliation E pid aid i)"
  unfolding acquire_paper_affiliation_def
  by (intro regular_intros regular_acquire_Institution)

lemma regular_acquire_paper_author: "regular (acquire_paper_author E pid ia)"
  unfolding acquire_paper_author_def
  by (intro regular_intros regular_acquire_Author regular_acquire_paper_affiliation)

lemma regular_acquire_paper_release: "regular (acquire_paper_release E pid r)"
  unfolding acquire_paper_release_def
  by (intro regular_intros regular_acquire_Release)

lemma regular_acquire_paper_topic: "regular (acquire_paper_topic E pid t)"
  unfolding acquire_paper_topic_def
  by (intro regular_intros regular_acquire_Topic)

lemma regular_acquire_inner_Paper: "regular (acquire_inner_Paper E p)"
  unfolding acquire_inner_Paper_def
  by (intro regular_intros regular_acquire_paper_author regular_acquire_paper_release
      regular_acquire_paper_topic)

lemma regular_acquire_inner: "regular (acquire_inner E x)"
proof (cases x)
  case (EPaper p)
  then show ?thesis by (simp add: regular_acquire_inner_Paper)
next
  case (EAuthor a)
  then show ?thesis
    by (simp add: acquire_inner_Author_def) (intro regular_intros regular_acquire_AuthorQuery)
next
  case (EInstitution i)
  then show ?thesis
    by (simp add: acquire_inner_Institution_def) (intro regular_intros)
next
  case (ERelease r)
  then show ?thesis
    by (simp add: acquire_inner_Release_def) (intro regular_intros regular_acquire_Venue)
next
  case (ETopic t)
  then show ?thesis
    by (simp add: acquire_inner_Topic_def) (intro regular_intros)
next
  case (EVenue v)
  then show ?thesis
    by (simp add: acquire_inner_Venue_def) (intro regular_intros)
next
  case (EAuthorQuery aid a)
  then show ?thesis
    by (simp add: acquire_inner_AuthorQuery_def) (intro regular_intros regular_acquire_Institution)
next
  case (EOther n)
  then show ?thesis by (simp add: regular_raises)
qed

lemma regular_acquire: "regular (acquire E x)"
  unfolding acquire_def by (intro regular_acquire_with regular_acquire_inner)

lemma regular_from_json: "regular (\<lambda>db. (from_json E l, db))"
  by (rule regularI [where f = "\<lambda>c b. (from_json E l, [], c)"])
    (simp add: map_option_append_Nil)

lemma regular_acquire_line: "regular (acquire_line E l)"
  unfolding acquire_line_def
  by (intro regular_intros regular_acquire regular_from_json)

text \<open>What a regular action leaves unchanged, and what it appends.\<close>

lemma regular_effect:
  assumes "regular m" and "m db = (r, db')"
  shows "\<exists>ops. committed db' = committed db \<and> files db' = files db
           \<and> trace db' = trace db @ map Issued ops
           \<and> session db' = map_option (\<lambda>p. p @ ops) (session db)"
proof -
  from assms(1) obtain f where f: "\<And>db. m db =
        (case f (cache db) (session db = None) of
           (r, ops, c') \<Rightarrow>
             (r, db\<lparr>cache := c', session := map_option (\<lambda>p. p @ ops) (session db),
                     trace := trace db @ map Issued ops\<rparr>))"
    unfolding regular_def by blast
  obtain r0 ops c' where "f (cache db) (session db = None) = (r0, ops, c')"
    by (cases "f (cache db) (session db = None)")
  with f [of db] assms(2) have "db' = db\<lparr>cache := c', session := map_option (\<lambda>p. p @ ops) (session db),
                     trace := trace db @ map Issued ops\<rparr>"
    by simp
  then show ?thesis by (intro exI [of _ ops]) simp
qed

text \<open>
  A regular action run from another state with the same cache and an open session gives the
  same result, the same cache and issues the same operations.
\<close>

lemma regular_same_cache:
  assumes "regular m" and "m db = (r, db')" and "cache db2 = cache db"
    and "session db = Some p" and "session db2 = Some p2"
  shows "\<exists>ops. session db' = Some (p @ ops) \<and> trace db' = trace db @ map Issued ops
           \<and> m db2 = (r, db2\<lparr>cache := cache db', session := Some (p2 @ ops),
                                 trace := trace db2 @ map Issued ops\<rparr>)"
proof -
  from assms(1) obtain f where f: "\<And>db. m db =
        (case f (cache db) (session db = None) of
           (r, ops, c') \<Rightarrow>
             (r, db\<lparr>cache := c', session := map_option (\<lambda>p. p @ ops) (session db),
                     trace := trace db @ map Issued ops\<rparr>))"
    unfolding regular_def by blast
  obtain r0 ops c' where fr: "f (cache db) (session db = None) = (r0, ops, c')"
    by (cases "f (cache db) (session db = None)")
  with f [of db] assms(2) have r: "r = r0" and db': "db' = db\<lparr>cache := c',
      session := map_option (\<lambda>p. p @ ops) (session db), trace := trace db @ map Issued ops\<rparr>"
    by simp_all
  from fr assms(3-5) have "f (cache db2) (session db2 = None) = (r0, ops, c')" by simp
  with f [of db2] have "m db2 = (r0, db2\<lparr>cache := c',
      session := map_option (\<lambda>p. p @ ops) (session db2), trace := trace db2 @ map Issued ops\<rparr>)"
    by simp
  with r db' assms(4,5) show ?thesis by (intro exI [of _ ops]) simp
qed

section \<open>Properties of the cache of acquire\<close>

lemma with_self_regular:
  assumes "regular m"
    and "m (db\<lparr>session := Some [], trace := trace db @ [Begin]\<rparr>) = (r, db2)"
  shows "\<exists>ops. session db2 = Some ops \<and> trace db2 = trace db @ Begin # map Issued ops
           \<and> committed db2 = committed db \<and> files db2 = files db
           \<and> with_self m db =
               (r, db2\<lparr>committed := committed db @ ops, session := None,
                       trace := trace db @ Begin # map Issued ops @ [Commit]\<rparr>)"
proof -
  let ?db0 = "db\<lparr>session := Some [], trace := trace db @ [Begin]\<rparr>"
  from regular_effect [OF assms] obtain ops where
    e: "committed db2 = committed ?db0" "files db2 = files ?db0"
      "trace db2 = trace ?db0 @ map Issued ops"
      "session db2 = map_option (\<lambda>p. p @ ops) (session ?db0)"
    by blast
  have "with_self m db =
      (r, db2\<lparr>committed := committed db @ ops, session := None,
              trace := trace db @ Begin # map Issued ops @ [Commit]\<rparr>)"
    using assms(2) e by (simp add: with_self_def enter_def exit_def)
  with e show ?thesis by (intro exI [of _ ops]) simp
qed

lemma acquire_with_caches:
  assumes "acquire_with hid run db = (Inr r, db')" and "truthy_hid hid"
  shows "map_of (cache db') hid = Some r"
  using assms
  by (auto simp: acquire_with_def update_conv' split: if_splits prod.splits sum.splits option.splits)

lemma acquire_cached:
  assumes "hashid E x = Some h" and "truthy_bytes h" and "map_of (cache db) (Some h) = Some r"
  shows "acquire E x db = (Inr r, db)"
  using assms by (simp add: acquire_def acquire_with_def truthy_hid_def)

text \<open>
  Claim C9.  In \<^verbatim>\<open>acquire\<close>, an entity whose address is not \<^verbatim>\<open>None\<close> (a non-empty byte
  string) and is in the cache gets the cached row at once: the state is left as it is, so
  nothing of \<^verbatim>\<open>_acquire\<close> ran.  An entity whose address is \<^verbatim>\<open>None\<close> always runs
  \<^verbatim>\<open>_acquire\<close>, whatever the cache holds (an entry under \<^verbatim>\<open>None\<close> included), and gets
  what this run returned.
\<close>

theorem acquire_cache_policy:
  "(hashid E x = Some h \<longrightarrow> truthy_bytes h \<longrightarrow> map_of (cache db) (Some h) = Some r \<longrightarrow>
      acquire E x db = (Inr r, db))
   \<and> (hashid E x = None \<longrightarrow>
      acquire E x db =
        (case acquire_inner E x db of
           (Inl e, db') \<Rightarrow> (Inl e, db')
         | (Inr v, db') \<Rightarrow> (Inr v, db'\<lparr>cache := AList.update None v (cache db')\<rparr>)))"
  by (simp add: acquire_def acquire_with_def truthy_hid_def)

theorem acquire_cache_policy_witness:
  "acquire example_externals (ETopic (Topic ''graphs''))
     \<lparr>committed = [], session = Some [],
      cache = [(Some [5, 6], Some (sch_Topic (Some [5, 6]) ''graphs''))], files = [], trace = []\<rparr>
   = (Inr (Some (sch_Topic (Some [5, 6]) ''graphs'')),
      \<lparr>committed = [], session = Some [],
       cache = [(Some [5, 6], Some (sch_Topic (Some [5, 6]) ''graphs''))], files = [], trace = []\<rparr>)
   \<and> acquire example_externals (EAuthorQuery (Some [2, 8]) (Author ''A. Smith'' [] [] [''Al''] []))
     \<lparr>committed = [], session = Some [],
      cache = [(None, Some (sch_Topic None ''stale''))], files = [], trace = []\<rparr>
   = (Inr None,
      \<lparr>committed = [], session = Some [Merge (sch_AuthorAlias (Some [2, 8]) ''Al'')],
       cache = [(None, None)], files = [],
       trace = [Issued (Merge (sch_AuthorAlias (Some [2, 8]) ''Al''))]\<rparr>)"
proof -
  let ?row = "Some (sch_Topic (Some [5, 6]) ''graphs'')"
  let ?db = "\<lparr>committed = [], session = Some [], cache = [(Some [5, 6], ?row)],
              files = [], trace = []\<rparr>"
  let ?q = "EAuthorQuery (Some [2, 8]) (Author ''A. Smith'' [] [] [''Al''] [])"
  let ?db2 = "\<lparr>committed = [], session = Some [],
      cache = [(None, Some (sch_Topic None ''stale''))], files = [], trace = []\<rparr>"
  have h1: "hashid example_externals (ETopic (Topic ''graphs'')) = Some [5, 6]"
    by (simp add: example_externals_def example_hashid_def)
  have t: "truthy_bytes [5, 6]" by (simp add: truthy_bytes_def)
  have c: "map_of (cache ?db) (Some [5, 6]) = Some ?row" by simp
  from acquire_cache_policy [of example_externals "ETopic (Topic ''graphs'')" "[5, 6]" ?db ?row]
    h1 t c
  have a: "acquire example_externals (ETopic (Topic ''graphs'')) ?db = (Inr ?row, ?db)" by blast
  have h2: "hashid example_externals ?q = None"
    by (simp add: example_externals_def example_hashid_def)
  have i: "acquire_inner example_externals ?q ?db2
      = (Inr None, \<lparr>committed = [], session = Some [Merge (sch_AuthorAlias (Some [2, 8]) ''Al'')],
           cache = [(None, Some (sch_Topic None ''stale''))], files = [],
           trace = [Issued (Merge (sch_AuthorAlias (Some [2, 8]) ''Al''))]\<rparr>)"
    by code_simp
  from acquire_cache_policy [of example_externals ?q undefined ?db2 undefined] h2
  have "acquire example_externals ?q ?db2 =
        (case acquire_inner example_externals ?q ?db2 of
           (Inl e, db') \<Rightarrow> (Inl e, db')
         | (Inr v, db') \<Rightarrow> (Inr v, db'\<lparr>cache := AList.update None v (cache db')\<rparr>))"
    by blast
  then have b: "acquire example_externals ?q ?db2
      = (Inr None, \<lparr>committed = [], session = Some [Merge (sch_AuthorAlias (Some [2, 8]) ''Al'')],
           cache = [(None, None)], files = [],
           trace = [Issued (Merge (sch_AuthorAlias (Some [2, 8]) ''Al''))]\<rparr>)"
    unfolding i by simp
  from a b show ?thesis by (rule conjI)
qed

lemma with_self_result:
  assumes "regular m" and "with_self m db = (r, db1)"
  shows "\<exists>ops db2. m (db\<lparr>session := Some [], trace := trace db @ [Begin]\<rparr>) = (r, db2)
           \<and> session db2 = Some ops \<and> trace db2 = trace db @ Begin # map Issued ops
           \<and> committed db2 = committed db \<and> files db2 = files db
           \<and> db1 = db2\<lparr>committed := committed db @ ops, session := None,
                       trace := trace db @ Begin # map Issued ops @ [Commit]\<rparr>"
proof -
  let ?db0 = "db\<lparr>session := Some [], trace := trace db @ [Begin]\<rparr>"
  obtain r0 db2 where m: "m ?db0 = (r0, db2)" by (cases "m ?db0")
  from with_self_regular [OF assms(1) m] obtain ops where
    H: "session db2 = Some ops \<and> trace db2 = trace db @ Begin # map Issued ops
           \<and> committed db2 = committed db \<and> files db2 = files db
           \<and> with_self m db =
               (r0, db2\<lparr>committed := committed db @ ops, session := None,
                       trace := trace db @ Begin # map Issued ops @ [Commit]\<rparr>)"
    by (elim exE)
  with assms(2) have "r0 = r" and "db1 = db2\<lparr>committed := committed db @ ops, session := None,
                       trace := trace db @ Begin # map Issued ops @ [Commit]\<rparr>"
    by simp_all
  with m H show ?thesis by (intro exI [of _ ops] exI [of _ db2]) simp
qed

text \<open>
  Claim C3, as amended.  The cache is not scoped to a transaction: \<^verbatim>\<open>__enter__\<close> and
  \<^verbatim>\<open>__exit__\<close> leave \<^verbatim>\<open>self.cache\<close> as it is, so a transaction begins with the cache
  the previous one left.  After a unit of work that acquired an entity with a non-empty
  address, the cache holds the row under that address, and a second unit of work acquiring
  the entity again gets that row from the cache: it opens and commits a session in which no
  operation is issued.
\<close>

theorem cache_kept_across_transactions:
  assumes "with_self (acquire E x) db = (Inr r, db1)"
    and "hashid E x = Some h" and "truthy_bytes h"
  shows "cache (snd (enter db1)) = cache db1 \<and> cache (snd (exit db1)) = cache db1
           \<and> map_of (cache db1) (Some h) = Some r
           \<and> with_self (acquire E x) db1 = (Inr r, db1\<lparr>trace := trace db1 @ [Begin, Commit]\<rparr>)"
proof -
  from with_self_result [OF regular_acquire assms(1)] obtain ops db2 where
    H: "acquire E x (db\<lparr>session := Some [], trace := trace db @ [Begin]\<rparr>) = (Inr r, db2)
           \<and> session db2 = Some ops \<and> trace db2 = trace db @ Begin # map Issued ops
           \<and> committed db2 = committed db \<and> files db2 = files db
           \<and> db1 = db2\<lparr>committed := committed db @ ops, session := None,
                       trace := trace db @ Begin # map Issued ops @ [Commit]\<rparr>"
    by (elim exE)
  from H have a: "acquire E x (db\<lparr>session := Some [], trace := trace db @ [Begin]\<rparr>) = (Inr r, db2)"
    by (rule conjunct1)
  from H have db1: "db1 = db2\<lparr>committed := committed db @ ops, session := None,
                       trace := trace db @ Begin # map Issued ops @ [Commit]\<rparr>" by simp
  from assms(2,3) have th: "truthy_hid (hashid E x)" by (simp add: truthy_hid_def)
  from a have "map_of (cache db2) (hashid E x) = Some r"
    unfolding acquire_def by (rule acquire_with_caches) (rule th)
  with db1 assms(2) have c: "map_of (cache db1) (Some h) = Some r" by simp
  have e: "cache (snd (enter db1)) = cache db1" by (simp add: enter_def)
  have x: "cache (snd (exit db1)) = cache db1" by (simp add: exit_def split: option.splits)
  from db1 have s: "session db1 = None" by simp
  let ?db3 = "db1\<lparr>session := Some [], trace := trace db1 @ [Begin]\<rparr>"
  from c have "map_of (cache ?db3) (Some h) = Some r" by simp
  with assms(2,3) have hit: "acquire E x ?db3 = (Inr r, ?db3)" by (rule acquire_cached)
  have w: "with_self (acquire E x) db1 = (Inr r, db1\<lparr>trace := trace db1 @ [Begin, Commit]\<rparr>)"
    using hit s by (simp add: with_self_def enter_def exit_def)
  from e x c w show ?thesis by simp
qed

theorem cache_kept_across_transactions_witness:
  "map_of (cache \<lparr>committed = [Merge (sch_Topic (Some [5, 6]) ''graphs'')], session = None,
       cache = [(Some [5, 6], Some (sch_Topic (Some [5, 6]) ''graphs''))], files = [],
       trace = [Begin, Issued (Merge (sch_Topic (Some [5, 6]) ''graphs'')), Commit]\<rparr>) (Some [5, 6])
     = Some (Some (sch_Topic (Some [5, 6]) ''graphs''))
   \<and> with_self (acquire example_externals (ETopic (Topic ''graphs'')))
       \<lparr>committed = [Merge (sch_Topic (Some [5, 6]) ''graphs'')], session = None,
        cache = [(Some [5, 6], Some (sch_Topic (Some [5, 6]) ''graphs''))], files = [],
        trace = [Begin, Issued (Merge (sch_Topic (Some [5, 6]) ''graphs'')), Commit]\<rparr>
     = (Inr (Some (sch_Topic (Some [5, 6]) ''graphs'')),
        \<lparr>committed = [Merge (sch_Topic (Some [5, 6]) ''graphs'')], session = None,
         cache = [(Some [5, 6], Some (sch_Topic (Some [5, 6]) ''graphs''))], files = [],
         trace = [Begin, Issued (Merge (sch_Topic (Some [5, 6]) ''graphs'')), Commit,
                  Begin, Commit]\<rparr>)"
proof -
  let ?x = "ETopic (Topic ''graphs'')"
  let ?row = "Some (sch_Topic (Some [5, 6]) ''graphs'')"
  let ?db1 = "\<lparr>committed = [Merge (sch_Topic (Some [5, 6]) ''graphs'')], session = None,
       cache = [(Some [5, 6], ?row)], files = [],
       trace = [Begin, Issued (Merge (sch_Topic (Some [5, 6]) ''graphs'')), Commit]\<rparr>"
  have first: "with_self (acquire example_externals ?x) init_database = (Inr ?row, ?db1)"
    by code_simp
  have h: "hashid example_externals ?x = Some [5, 6]"
    by (simp add: example_externals_def example_hashid_def)
  have t: "truthy_bytes [5, 6]" by (simp add: truthy_bytes_def)
  from cache_kept_across_transactions [OF first h t]
  have "map_of (cache ?db1) (Some [5, 6]) = Some ?row"
    and "with_self (acquire example_externals ?x) ?db1
      = (Inr ?row, ?db1\<lparr>trace := trace ?db1 @ [Begin, Commit]\<rparr>)"
    by blast+
  then show ?thesis by simp
qed

text \<open>
  Claim C3 as stated fails: the second of two consecutive units of work begins with the
  cache the first one filled, and its \<^verbatim>\<open>acquire\<close> of the same topic is answered from that
  cache (the session is committed with no operation issued in it).
\<close>

theorem cache_scope_counterexample:
  "with_self (acquire example_externals (ETopic (Topic ''graphs''))) init_database
     = (Inr (Some (sch_Topic (Some [5, 6]) ''graphs'')),
        \<lparr>committed = [Merge (sch_Topic (Some [5, 6]) ''graphs'')], session = None,
         cache = [(Some [5, 6], Some (sch_Topic (Some [5, 6]) ''graphs''))], files = [],
         trace = [Begin, Issued (Merge (sch_Topic (Some [5, 6]) ''graphs'')), Commit]\<rparr>)
   \<and> cache (snd (enter
        \<lparr>committed = [Merge (sch_Topic (Some [5, 6]) ''graphs'')], session = None,
         cache = [(Some [5, 6], Some (sch_Topic (Some [5, 6]) ''graphs''))], files = [],
         trace = [Begin, Issued (Merge (sch_Topic (Some [5, 6]) ''graphs'')), Commit]\<rparr>))
     = [(Some [5, 6], Some (sch_Topic (Some [5, 6]) ''graphs''))]
   \<and> with_self (acquire example_externals (ETopic (Topic ''graphs'')))
        \<lparr>committed = [Merge (sch_Topic (Some [5, 6]) ''graphs'')], session = None,
         cache = [(Some [5, 6], Some (sch_Topic (Some [5, 6]) ''graphs''))], files = [],
         trace = [Begin, Issued (Merge (sch_Topic (Some [5, 6]) ''graphs'')), Commit]\<rparr>
     = (Inr (Some (sch_Topic (Some [5, 6]) ''graphs'')),
        \<lparr>committed = [Merge (sch_Topic (Some [5, 6]) ''graphs'')], session = None,
         cache = [(Some [5, 6], Some (sch_Topic (Some [5, 6]) ''graphs''))], files = [],
         trace = [Begin, Issued (Merge (sch_Topic (Some [5, 6]) ''graphs'')), Commit,
                  Begin, Commit]\<rparr>)"
  by code_simp

section \<open>Acquiring twice\<close>

lemma apply_op_cell: "apply_op pk tbl op k = cell_op pk k (tbl k) op"
  by (cases op) (auto simp: apply_op_def cell_op_def)

lemma foldl_apply_cell:
  "foldl (apply_op pk) tbl ops k = foldl (cell_op pk k) (tbl k) ops"
  by (induction ops arbitrary: tbl) (simp_all add: apply_op_cell)

lemma cell_op_keeps: "c \<noteq> None \<Longrightarrow> cell_op pk k c op \<noteq> None"
  by (cases op) (auto simp: cell_op_def)

lemma foldl_cell_keeps: "c \<noteq> None \<Longrightarrow> foldl (cell_op pk k) c ops \<noteq> None"
proof (induction ops arbitrary: c)
  case Nil
  then show ?case by simp
next
  case (Cons op ops)
  from Cons.prems have "cell_op pk k c op \<noteq> None" by (rule cell_op_keeps)
  then have "foldl (cell_op pk k) (cell_op pk k c op) ops \<noteq> None" by (rule Cons.IH)
  then show ?case by simp
qed

lemma foldl_cell_idem:
  "foldl (cell_op pk k) (foldl (cell_op pk k) c ops) ops = foldl (cell_op pk k) c ops"
proof (induction ops arbitrary: c)
  case Nil
  show ?case by simp
next
  case (Cons op ops)
  let ?e = "cell_op pk k c op"
  let ?y = "foldl (cell_op pk k) ?e ops"
  have ih: "foldl (cell_op pk k) ?y ops = ?y" by (rule Cons.IH)
  have "foldl (cell_op pk k) (cell_op pk k ?y op) ops = ?y"
  proof (cases op)
    case (Merge r)
    show ?thesis
    proof (cases "pk r = k")
      case True
      with Merge have "cell_op pk k ?y op = ?e" by (simp add: cell_op_def)
      then show ?thesis by simp
    next
      case False
      with Merge have "cell_op pk k ?y op = ?y" by (simp add: cell_op_def)
      with ih show ?thesis by simp
    qed
  next
    case (InsertIgnore r)
    show ?thesis
    proof (cases "pk r = k")
      case True
      with InsertIgnore have "?e \<noteq> None" by (simp add: cell_op_def)
      then have "?y \<noteq> None" by (rule foldl_cell_keeps)
      with InsertIgnore have "cell_op pk k ?y op = ?y" by (auto simp: cell_op_def)
      with ih show ?thesis by simp
    next
      case False
      with InsertIgnore have "cell_op pk k ?y op = ?y" by (simp add: cell_op_def)
      with ih show ?thesis by simp
    qed
  qed
  then show ?case by simp
qed

lemma rows_of_append: "rows_of pk (c @ ops) = foldl (apply_op pk) (rows_of pk c) ops"
  by (simp add: rows_of_def)

lemma rows_of_twice: "rows_of pk (c @ ops @ ops) = rows_of pk (c @ ops)"
proof
  fix k
  have "rows_of pk (c @ ops @ ops) k
      = foldl (cell_op pk k) (foldl (cell_op pk k) (rows_of pk c k) ops) ops"
    by (simp add: rows_of_append foldl_apply_cell)
  also have "\<dots> = foldl (cell_op pk k) (rows_of pk c k) ops" by (rule foldl_cell_idem)
  also have "\<dots> = rows_of pk (c @ ops) k" by (simp add: rows_of_append foldl_apply_cell)
  finally show "rows_of pk (c @ ops @ ops) k = rows_of pk (c @ ops) k" .
qed

lemma with_self_acquire_again:
  assumes "with_self (acquire E x) db = (Inr r, db1)"
    and "hashid E x = Some h" and "truthy_bytes h"
  shows "map_of (cache db1) (Some h) = Some r"
    and "with_self (acquire E x) db1 = (Inr r, db1\<lparr>trace := trace db1 @ [Begin, Commit]\<rparr>)"
    and "with_self (and_then (acquire E x) (\<lambda>_. acquire E x)) db = (Inr r, db1)"
proof -
  let ?db0 = "db\<lparr>session := Some [], trace := trace db @ [Begin]\<rparr>"
  from with_self_result [OF regular_acquire assms(1)] obtain ops db2 where
    H: "acquire E x ?db0 = (Inr r, db2)
           \<and> session db2 = Some ops \<and> trace db2 = trace db @ Begin # map Issued ops
           \<and> committed db2 = committed db \<and> files db2 = files db
           \<and> db1 = db2\<lparr>committed := committed db @ ops, session := None,
                       trace := trace db @ Begin # map Issued ops @ [Commit]\<rparr>"
    by (elim exE)
  from H have a: "acquire E x ?db0 = (Inr r, db2)" by (rule conjunct1)
  from H have s2: "session db2 = Some ops" and c2: "committed db2 = committed db" by simp_all
  from H have db1: "db1 = db2\<lparr>committed := committed db @ ops, session := None,
                       trace := trace db @ Begin # map Issued ops @ [Commit]\<rparr>" by simp
  from assms(2,3) have th: "truthy_hid (hashid E x)" by (simp add: truthy_hid_def)
  from a have "map_of (cache db2) (hashid E x) = Some r"
    unfolding acquire_def by (rule acquire_with_caches) (rule th)
  with assms(2) have k2: "map_of (cache db2) (Some h) = Some r" by simp
  with db1 show c: "map_of (cache db1) (Some h) = Some r" by simp
  from db1 have s: "session db1 = None" by simp
  let ?db3 = "db1\<lparr>session := Some [], trace := trace db1 @ [Begin]\<rparr>"
  from c have "map_of (cache ?db3) (Some h) = Some r" by simp
  with assms(2,3) have hit: "acquire E x ?db3 = (Inr r, ?db3)" by (rule acquire_cached)
  show "with_self (acquire E x) db1 = (Inr r, db1\<lparr>trace := trace db1 @ [Begin, Commit]\<rparr>)"
    using hit s by (simp add: with_self_def enter_def exit_def)
  from assms(2,3) k2 have hit2: "acquire E x db2 = (Inr r, db2)" by (rule acquire_cached)
  show "with_self (and_then (acquire E x) (\<lambda>_. acquire E x)) db = (Inr r, db1)"
    using a hit2 s2 c2 db1 H by (simp add: with_self_def enter_def exit_def and_then_def)
qed

text \<open>
  Claim C1.  After a unit of work that acquired an entity tree, acquiring the same tree
  again changes nothing that is persisted.  With the address of the tree in the cache (an
  addressed entity, on the same Database object) the second \<^verbatim>\<open>acquire\<close> issues no
  operation: acquiring twice in one unit of work leaves exactly the state that acquiring
  once leaves, and a second unit of work commits nothing.  With the cache as it was before
  the first acquisition (a new Database object on the same file) the second acquisition
  issues the same operations again, and the tables hold the same rows after it, for every
  choice of primary keys: merges are upserts and the association inserts ignore conflicts.
\<close>

theorem acquire_twice_same_rows:
  assumes "with_self (acquire E x) db = (Inr r, db1)"
  shows "(hashid E x = Some h \<and> truthy_bytes h \<longrightarrow>
            with_self (and_then (acquire E x) (\<lambda>_. acquire E x)) db = (Inr r, db1)
            \<and> (\<exists>db2. with_self (acquire E x) db1 = (Inr r, db2)
                  \<and> committed db2 = committed db1 \<and> cache db2 = cache db1))
         \<and> (\<exists>db3. with_self (acquire E x) (db1\<lparr>cache := cache db\<rparr>) = (Inr r, db3)
               \<and> rows_of pk (committed db3) = rows_of pk (committed db1)
               \<and> cache db3 = cache db1)"
proof (rule conjI)
  show "hashid E x = Some h \<and> truthy_bytes h \<longrightarrow>
            with_self (and_then (acquire E x) (\<lambda>_. acquire E x)) db = (Inr r, db1)
            \<and> (\<exists>db2. with_self (acquire E x) db1 = (Inr r, db2)
                  \<and> committed db2 = committed db1 \<and> cache db2 = cache db1)"
  proof
    assume "hashid E x = Some h \<and> truthy_bytes h"
    then have h: "hashid E x = Some h" and t: "truthy_bytes h" by simp_all
    from with_self_acquire_again(3) [OF assms h t]
    have one: "with_self (and_then (acquire E x) (\<lambda>_. acquire E x)) db = (Inr r, db1)" .
    from with_self_acquire_again(2) [OF assms h t]
    have "\<exists>db2. with_self (acquire E x) db1 = (Inr r, db2)
                  \<and> committed db2 = committed db1 \<and> cache db2 = cache db1"
      by (intro exI [of _ "db1\<lparr>trace := trace db1 @ [Begin, Commit]\<rparr>"]) simp
    with one show "with_self (and_then (acquire E x) (\<lambda>_. acquire E x)) db = (Inr r, db1)
            \<and> (\<exists>db2. with_self (acquire E x) db1 = (Inr r, db2)
                  \<and> committed db2 = committed db1 \<and> cache db2 = cache db1)" ..
  qed
next
  let ?db0 = "db\<lparr>session := Some [], trace := trace db @ [Begin]\<rparr>"
  from with_self_result [OF regular_acquire assms] obtain ops db2 where
    H: "acquire E x ?db0 = (Inr r, db2)
           \<and> session db2 = Some ops \<and> trace db2 = trace db @ Begin # map Issued ops
           \<and> committed db2 = committed db \<and> files db2 = files db
           \<and> db1 = db2\<lparr>committed := committed db @ ops, session := None,
                       trace := trace db @ Begin # map Issued ops @ [Commit]\<rparr>"
    by (elim exE)
  from H have a: "acquire E x ?db0 = (Inr r, db2)" by (rule conjunct1)
  from H have s2: "session db2 = Some ops" by simp
  from H have db1: "db1 = db2\<lparr>committed := committed db @ ops, session := None,
                       trace := trace db @ Begin # map Issued ops @ [Commit]\<rparr>" by simp
  let ?db1' = "db1\<lparr>cache := cache db\<rparr>"
  let ?db4 = "?db1'\<lparr>session := Some [], trace := trace ?db1' @ [Begin]\<rparr>"
  have "cache ?db4 = cache ?db0" by simp
  from regular_same_cache [OF regular_acquire a this, of "[]" "[]"] obtain ops' where
    R: "session db2 = Some ([] @ ops') \<and> trace db2 = trace ?db0 @ map Issued ops'
           \<and> acquire E x ?db4 = (Inr r, ?db4\<lparr>cache := cache db2, session := Some ([] @ ops'),
                                 trace := trace ?db4 @ map Issued ops'\<rparr>)"
    by auto
  with s2 have eq: "ops' = ops" by simp
  let ?db5 = "?db4\<lparr>cache := cache db2, session := Some ops, trace := trace ?db4 @ map Issued ops\<rparr>"
  from R eq have b: "acquire E x ?db4 = (Inr r, ?db5)" by simp
  let ?db3 = "?db5\<lparr>committed := committed ?db1' @ ops, session := None,
                   trace := trace ?db1' @ Begin # map Issued ops @ [Commit]\<rparr>"
  have w: "with_self (acquire E x) ?db1' = (Inr r, ?db3)"
    using b by (simp add: with_self_def enter_def exit_def)
  have "committed ?db3 = committed db @ ops @ ops" using db1 by simp
  moreover have "committed db1 = committed db @ ops" using db1 by simp
  ultimately have rows: "rows_of pk (committed ?db3) = rows_of pk (committed db1)"
    by (simp only: rows_of_twice)
  have "cache ?db3 = cache db1" using db1 by simp
  with w rows show "\<exists>db3. with_self (acquire E x) ?db1' = (Inr r, db3)
               \<and> rows_of pk (committed db3) = rows_of pk (committed db1)
               \<and> cache db3 = cache db1"
    by (intro exI [of _ ?db3] conjI)
qed

theorem acquire_twice_same_rows_witness:
  "fst (with_self (acquire example_externals (EPaper example_paper)) init_database)
     = Inr (Some (sch_Paper (Some [1, 12]) ''Graph Theory'' None None))
   \<and> committed (snd (with_self (acquire example_externals (EPaper example_paper)) init_database))
     = [Merge (sch_Paper (Some [1, 12]) ''Graph Theory'' None None),
        Merge (sch_Author (Some [2, 8]) ''A. Smith''),
        Merge (sch_PaperAuthor (Some [1, 12]) (Some [2, 8]) 0),
        Merge (sch_Institution (Some [3, 3]) ''MIT'' ''academia''),
        InsertIgnore (t_paper_author_institution (Some [1, 12]) (Some [2, 8]) (Some [3, 3]))]
   \<and> with_self (and_then (acquire example_externals (EPaper example_paper))
         (\<lambda>_. acquire example_externals (EPaper example_paper))) init_database
     = with_self (acquire example_externals (EPaper example_paper)) init_database
   \<and> (\<exists>db2. with_self (acquire example_externals (EPaper example_paper))
           (snd (with_self (acquire example_externals (EPaper example_paper)) init_database))
         = (Inr (Some (sch_Paper (Some [1, 12]) ''Graph Theory'' None None)), db2)
         \<and> committed db2
           = committed (snd (with_self (acquire example_externals (EPaper example_paper)) init_database)))
   \<and> (\<exists>db3. with_self (acquire example_externals (EPaper example_paper))
           ((snd (with_self (acquire example_externals (EPaper example_paper)) init_database))
              \<lparr>cache := cache init_database\<rparr>)
         = (Inr (Some (sch_Paper (Some [1, 12]) ''Graph Theory'' None None)), db3)
         \<and> rows_of (\<lambda>r. r) (committed db3)
           = rows_of (\<lambda>r. r)
               (committed (snd (with_self (acquire example_externals (EPaper example_paper)) init_database))))"
proof -
  let ?a = "acquire example_externals (EPaper example_paper)"
  let ?r = "Some (sch_Paper (Some [1, 12]) ''Graph Theory'' None None)"
  let ?W = "with_self ?a init_database"
  have f: "fst ?W = Inr ?r" by code_simp
  have c: "committed (snd ?W)
     = [Merge (sch_Paper (Some [1, 12]) ''Graph Theory'' None None),
        Merge (sch_Author (Some [2, 8]) ''A. Smith''),
        Merge (sch_PaperAuthor (Some [1, 12]) (Some [2, 8]) 0),
        Merge (sch_Institution (Some [3, 3]) ''MIT'' ''academia''),
        InsertIgnore (t_paper_author_institution (Some [1, 12]) (Some [2, 8]) (Some [3, 3]))]"
    by code_simp
  from f have first: "?W = (Inr ?r, snd ?W)" by (metis prod.collapse)
  have h: "hashid example_externals (EPaper example_paper) = Some [1, 12] \<and> truthy_bytes [1, 12]"
    by (simp add: example_externals_def example_hashid_def example_paper_def truthy_bytes_def)
  from acquire_twice_same_rows [OF first, of "[1, 12]" "\<lambda>r. r"] h
  have a1: "with_self (and_then ?a (\<lambda>_. ?a)) init_database = (Inr ?r, snd ?W)"
    and a2: "\<exists>db2. with_self ?a (snd ?W) = (Inr ?r, db2)
                  \<and> committed db2 = committed (snd ?W) \<and> cache db2 = cache (snd ?W)"
    and a3: "\<exists>db3. with_self ?a ((snd ?W)\<lparr>cache := cache init_database\<rparr>) = (Inr ?r, db3)
               \<and> rows_of (\<lambda>r. r) (committed db3) = rows_of (\<lambda>r. r) (committed (snd ?W))
               \<and> cache db3 = cache (snd ?W)"
    by blast+
  from a1 first have b1: "with_self (and_then ?a (\<lambda>_. ?a)) init_database = ?W" by simp
  from a2 have b2: "\<exists>db2. with_self ?a (snd ?W) = (Inr ?r, db2)
                  \<and> committed db2 = committed (snd ?W)" by blast
  from a3 have b3: "\<exists>db3. with_self ?a ((snd ?W)\<lparr>cache := cache init_database\<rparr>) = (Inr ?r, db3)
               \<and> rows_of (\<lambda>r. r) (committed db3) = rows_of (\<lambda>r. r) (committed (snd ?W))" by blast
  from f c b1 b2 b3 show ?thesis by (intro conjI)
qed

section \<open>Failure inside a unit of work\<close>






section \<open>Order of the writes of acquire\<close>












section \<open>import_all and the history log\<close>



section \<open>replay and the selection of history files\<close>

lemma select_paths_filter:
  "select_paths bef aft paths = filter (in_range bef aft) (sort_key node_name paths)"
proof -
  have r: "in_range bef aft = (\<lambda>x.
      (if truthy_str bef then take (length (the bef)) (node_name x) < the bef else True)
      \<and> (if truthy_str aft then take (length (the aft)) (node_name x) > the aft else True))"
    by (rule ext) (simp add: in_range_def)
  show ?thesis
    unfolding r select_paths_def Let_def
    by (cases "truthy_str bef"; cases "truthy_str aft") (simp_all add: conj_commute)
qed

lemma accumulate_results:
  "accumulate_history_files bef aft x results
     = results @ accumulate_history_files bef aft x []"
proof (induction bef aft x results rule: accumulate_history_files.induct)
  case (1 bef aft n entries results)
  then show ?case by simp
next
  case (2 bef aft n ls results)
  show ?case by simp
next
  case (3 bef aft paths results)
  have "set ps \<subseteq> set (select_paths bef aft paths) \<Longrightarrow>
      foldl (\<lambda>res subpth. accumulate_history_files bef aft (Inl subpth) res) rs ps
      = rs @ foldl (\<lambda>res subpth. accumulate_history_files bef aft (Inl subpth) res) [] ps"
    for ps rs
  proof (induction ps arbitrary: rs rule: rev_induct)
    case Nil
    show ?case by simp
  next
    case (snoc p ps)
    from snoc.prems have p: "p \<in> set (select_paths bef aft paths)" by simp
    from snoc.prems have "set ps \<subseteq> set (select_paths bef aft paths)" by simp
    note ih = snoc.IH [OF this]
    have "foldl (\<lambda>res subpth. accumulate_history_files bef aft (Inl subpth) res) rs (ps @ [p])
        = accumulate_history_files bef aft (Inl p)
            (foldl (\<lambda>res subpth. accumulate_history_files bef aft (Inl subpth) res) rs ps)"
      by simp
    also have "\<dots> = foldl (\<lambda>res subpth. accumulate_history_files bef aft (Inl subpth) res) rs ps
        @ accumulate_history_files bef aft (Inl p) []"
      by (rule "3.IH" [OF p])
    also have "\<dots> = rs @ foldl (\<lambda>res subpth. accumulate_history_files bef aft (Inl subpth) res) [] ps
        @ accumulate_history_files bef aft (Inl p) []"
      by (subst ih) simp
    also have "foldl (\<lambda>res subpth. accumulate_history_files bef aft (Inl subpth) res) [] ps
        @ accumulate_history_files bef aft (Inl p) []
        = foldl (\<lambda>res subpth. accumulate_history_files bef aft (Inl subpth) res) [] (ps @ [p])"
      using "3.IH" [OF p, of "foldl (\<lambda>res subpth. accumulate_history_files bef aft (Inl subpth) res) [] ps"]
      by simp
    finally show ?case .
  qed
  from this [of "select_paths bef aft paths" results] show ?case by simp
qed

lemma foldl_accumulate_concat:
  "foldl (\<lambda>res subpth. accumulate_history_files bef aft (Inl subpth) res) rs ps
     = rs @ concat (map (\<lambda>c. accumulate_history_files bef aft (Inl c) []) ps)"
proof (induction ps arbitrary: rs)
  case Nil
  show ?case by simp
next
  case (Cons p ps)
  show ?case
    by (simp add: Cons.IH accumulate_results [of bef aft "Inl p" rs])
qed

lemma accumulate_Dir:
  "accumulate_history_files bef aft (Inl (Dir n entries)) []
     = concat (map (\<lambda>c. accumulate_history_files bef aft (Inl c) [])
         (filter (in_range bef aft) (sort_key node_name entries)))"
  by (simp add: foldl_accumulate_concat select_paths_filter)

lemma accumulate_file_entry: "is_file c \<Longrightarrow> accumulate_history_files bef aft (Inl c) [] = [c]"
  by (cases c) (simp_all add: is_file_def)

lemma accumulate_flat:
  assumes "\<forall>c \<in> set entries. is_file c"
  shows "accumulate_history_files bef aft (Inl (Dir n entries)) []
     = filter (in_range bef aft) (sort_key node_name entries)"
proof -
  have "concat (map (\<lambda>c. accumulate_history_files bef aft (Inl c) []) ps) = ps"
    if "\<forall>c \<in> set ps. is_file c" for ps
    using that by (induction ps) (simp_all add: accumulate_file_entry)
  moreover have "\<forall>c \<in> set (filter (in_range bef aft) (sort_key node_name entries)). is_file c"
    using assms by simp
  ultimately show ?thesis by (simp only: accumulate_Dir)
qed

lemma all_files_flat:
  assumes "\<forall>c \<in> set entries. is_file c"
  shows "all_files (Dir n entries) = sort_key node_name entries"
proof -
  have "concat (map all_files ps) = ps" if "\<forall>c \<in> set ps. is_file c" for ps
    using that
  proof (induction ps)
    case Nil
    show ?case by simp
  next
    case (Cons p ps)
    then have "is_file p" by simp
    then have "all_files p = [p]" by (cases p) (simp_all add: is_file_def)
    with Cons show ?case by simp
  qed
  moreover have "\<forall>c \<in> set (sort_key node_name entries). is_file c" using assms by simp
  ultimately show ?thesis by simp
qed

lemma accumulate_reaches:
  "set (accumulate_history_files bef aft (Inl root) []) = {f. reaches bef aft root f}"
proof (induction root)
  case (File n ls)
  show ?case by auto
next
  case (Dir n entries)
  have "set (accumulate_history_files bef aft (Inl (Dir n entries)) [])
      = (\<Union>c \<in> {c \<in> set entries. in_range bef aft c}.
           set (accumulate_history_files bef aft (Inl c) []))"
    by (simp only: accumulate_Dir) auto
  also have "\<dots> = (\<Union>c \<in> {c \<in> set entries. in_range bef aft c}. {f. reaches bef aft c f})"
    using Dir.IH by auto
  also have "\<dots> = {f. reaches bef aft (Dir n entries) f}" by auto
  finally show ?case .
qed

lemma replay_file_transaction:
  assumes "replay_file E f db = (r, db')"
  shows "\<exists>ops db2. for_each (acquire_line E) (file_lines f)
             (db\<lparr>session := Some [], trace := trace db @ [Begin]\<rparr>) = (r, db2)
           \<and> session db2 = Some ops
           \<and> trace db' = trace db @ Begin # map Issued ops @ [Commit]
           \<and> committed db' = committed db @ ops"
proof -
  have reg: "regular (for_each (acquire_line E) (file_lines f))"
    by (intro regular_for_each regular_acquire_line)
  from with_self_result [OF reg assms [unfolded replay_file_def]] obtain ops db2 where
    H: "for_each (acquire_line E) (file_lines f)
          (db\<lparr>session := Some [], trace := trace db @ [Begin]\<rparr>) = (r, db2)
           \<and> session db2 = Some ops \<and> trace db2 = trace db @ Begin # map Issued ops
           \<and> committed db2 = committed db \<and> files db2 = files db
           \<and> db' = db2\<lparr>committed := committed db @ ops, session := None,
                       trace := trace db @ Begin # map Issued ops @ [Commit]\<rparr>"
    by (elim exE)
  then show ?thesis by (intro exI [of _ ops] exI [of _ db2]) simp
qed

text \<open>
  Claim C6, as amended.  A root that is a file is applied whatever its name.  A directory
  is expanded to its entries sorted by name, and the range filter (prefix of the name below
  \<^verbatim>\<open>before\<close> and above \<^verbatim>\<open>after\<close>, a bound that is \<^verbatim>\<open>None\<close> or empty being no bound) is
  applied to all of them, files and subdirectories alike: a file is applied exactly when
  its own name and the name of every directory between the root and it pass the filter.
  For a directory that holds only files these are the files the claim names, in sorted
  order.  \<^verbatim>\<open>replay\<close> processes the selected files in this order, each in one session:
  the lines of the file are parsed and acquired in it, and the session is committed when
  the file ends.
\<close>

theorem replay_selection:
  "accumulate_history_files bef aft (Inl (File n ls)) [] = [File n ls]
   \<and> accumulate_history_files bef aft (Inl (Dir n entries)) []
       = concat (map (\<lambda>c. accumulate_history_files bef aft (Inl c) [])
           (filter (in_range bef aft) (sort_key node_name entries)))
   \<and> set (accumulate_history_files bef aft (Inl root) []) = {f. reaches bef aft root f}
   \<and> ((\<forall>c \<in> set entries. is_file c) \<longrightarrow>
        accumulate_history_files bef aft (Inl (Dir n entries)) []
          = claimed_history_files bef aft (Dir n entries)
        \<and> sorted (map node_name (accumulate_history_files bef aft (Inl (Dir n entries)) [])))
   \<and> replay E (Some root) bef aft
       = for_each (replay_file E) (accumulate_history_files bef aft (Inl root) [])
   \<and> (replay_file E f db = (r, db') \<longrightarrow>
        (\<exists>ops db2. for_each (acquire_line E) (file_lines f)
             (db\<lparr>session := Some [], trace := trace db @ [Begin]\<rparr>) = (r, db2)
           \<and> session db2 = Some ops
           \<and> trace db' = trace db @ Begin # map Issued ops @ [Commit]
           \<and> committed db' = committed db @ ops))"
proof (intro conjI impI)
  show "accumulate_history_files bef aft (Inl (File n ls)) [] = [File n ls]" by simp
  show "accumulate_history_files bef aft (Inl (Dir n entries)) []
       = concat (map (\<lambda>c. accumulate_history_files bef aft (Inl c) [])
           (filter (in_range bef aft) (sort_key node_name entries)))"
    by (rule accumulate_Dir)
  show "set (accumulate_history_files bef aft (Inl root) []) = {f. reaches bef aft root f}"
    by (rule accumulate_reaches)
  show "replay E (Some root) bef aft
       = for_each (replay_file E) (accumulate_history_files bef aft (Inl root) [])"
    by (rule ext) (simp add: replay_def)
next
  assume flat: "\<forall>c \<in> set entries. is_file c"
  then show "accumulate_history_files bef aft (Inl (Dir n entries)) []
          = claimed_history_files bef aft (Dir n entries)"
    by (simp only: accumulate_flat claimed_history_files_def all_files_flat)
  from flat show "sorted (map node_name (accumulate_history_files bef aft (Inl (Dir n entries)) []))"
    by (simp only: accumulate_flat) (simp add: sorted_filter)
next
  assume "replay_file E f db = (r, db')"
  then show "\<exists>ops db2. for_each (acquire_line E) (file_lines f)
             (db\<lparr>session := Some [], trace := trace db @ [Begin]\<rparr>) = (r, db2)
           \<and> session db2 = Some ops
           \<and> trace db' = trace db @ Begin # map Issued ops @ [Commit]
           \<and> committed db' = committed db @ ops"
    by (rule replay_file_transaction)
qed

theorem replay_selection_witness:
  "accumulate_history_files (Some ''2023-06'') None
     (Inl (Dir ''history'' [File ''2023-07.jsonl'' [''cycles''], File ''2023-05.jsonl'' [''graphs''],
                            File ''2023-01.jsonl'' [''trees'']])) []
   = [File ''2023-01.jsonl'' [''trees''], File ''2023-05.jsonl'' [''graphs'']]
   \<and> replay example_externals
       (Some (Dir ''history'' [File ''2023-07.jsonl'' [''cycles''], File ''2023-05.jsonl'' [''graphs''],
                               File ''2023-01.jsonl'' [''trees'']]))
       (Some ''2023-06'') None init_database
     = (Inr (),
        \<lparr>committed = [Merge (sch_Topic (Some [5, 5]) ''trees''),
                      Merge (sch_Topic (Some [5, 6]) ''graphs'')],
         session = None,
         cache = [(Some [5, 5], Some (sch_Topic (Some [5, 5]) ''trees'')),
                  (Some [5, 6], Some (sch_Topic (Some [5, 6]) ''graphs''))],
         files = [],
         trace = [Begin, Issued (Merge (sch_Topic (Some [5, 5]) ''trees'')), Commit,
                  Begin, Issued (Merge (sch_Topic (Some [5, 6]) ''graphs'')), Commit]\<rparr>)"
proof -
  let ?entries = "[File ''2023-07.jsonl'' [''cycles''], File ''2023-05.jsonl'' [''graphs''],
                   File ''2023-01.jsonl'' [''trees'']]"
  let ?root = "Dir ''history'' ?entries"
  let ?sel = "[File ''2023-01.jsonl'' [''trees''], File ''2023-05.jsonl'' [''graphs'']]"
  let ?final = "\<lparr>committed = [Merge (sch_Topic (Some [5, 5]) ''trees''),
                      Merge (sch_Topic (Some [5, 6]) ''graphs'')],
         session = None,
         cache = [(Some [5, 5], Some (sch_Topic (Some [5, 5]) ''trees'')),
                  (Some [5, 6], Some (sch_Topic (Some [5, 6]) ''graphs''))],
         files = [],
         trace = [Begin, Issued (Merge (sch_Topic (Some [5, 5]) ''trees'')), Commit,
                  Begin, Issued (Merge (sch_Topic (Some [5, 6]) ''graphs'')), Commit]\<rparr>"
  note T = replay_selection [where bef = "Some ''2023-06''" and aft = None and n = "''history''"
      and entries = ?entries and root = ?root and E = example_externals and ls = "[]"
      and f = "File [] []" and db = init_database and r = "Inr ()" and db' = init_database]
  have flat: "\<forall>c \<in> set ?entries. is_file c" by (simp add: is_file_def)
  from T flat have a: "accumulate_history_files (Some ''2023-06'') None (Inl ?root) []
      = claimed_history_files (Some ''2023-06'') None ?root"
    by blast
  have c: "claimed_history_files (Some ''2023-06'') None ?root = ?sel"
    by code_simp
  from T have r: "replay example_externals (Some ?root) (Some ''2023-06'') None
      = for_each (replay_file example_externals)
          (accumulate_history_files (Some ''2023-06'') None (Inl ?root) [])"
    by blast
  have f: "for_each (replay_file example_externals) ?sel init_database = (Inr (), ?final)"
    by code_simp
  from a c have s: "accumulate_history_files (Some ''2023-06'') None (Inl ?root) [] = ?sel" by simp
  from r s f have "replay example_externals (Some ?root) (Some ''2023-06'') None init_database
      = (Inr (), ?final)" by simp
  with s show ?thesis by (rule conjI)
qed

text \<open>
  Claim C6 as stated fails: under a directory named \<^verbatim>\<open>2023\<close>, the file
  \<^verbatim>\<open>2023-05.jsonl\<close> has a name prefix above the bound \<^verbatim>\<open>after = 2023-04\<close>, so it is one
  of the files the claim names; the code applies the filter to the directory as well, whose
  name \<^verbatim>\<open>2023\<close> is not above \<^verbatim>\<open>2023-04\<close>, and replays nothing.
\<close>

theorem replay_selection_counterexample:
  "claimed_history_files None (Some ''2023-04'')
     (Dir ''history'' [Dir ''2023'' [File ''2023-05.jsonl'' [''graphs'']]])
   = [File ''2023-05.jsonl'' [''graphs'']]
   \<and> accumulate_history_files None (Some ''2023-04'')
       (Inl (Dir ''history'' [Dir ''2023'' [File ''2023-05.jsonl'' [''graphs'']]])) []
     = []
   \<and> replay example_externals
       (Some (Dir ''history'' [Dir ''2023'' [File ''2023-05.jsonl'' [''graphs'']]]))
       None (Some ''2023-04'') init_database
     = (Inr (), init_database)"
  by code_simp

end
